theory Spec2Isabelle
  imports Complex_Main "HOL-Library.AList"
begin

section \<open>Python strings\<close>

text \<open>
  Strings are \<open>char list\<close>. Case conversion and character classes are the ASCII part of
  Python's \<open>str.lower\<close>, \<open>str.title\<close>, \<open>str.split\<close> and \<open>str.strip\<close>; characters
  outside ASCII are left unchanged and are neither letters nor whitespace.
\<close>

definition upper_chars :: string where
  "upper_chars = ''ABCDEFGHIJKLMNOPQRSTUVWXYZ''"

definition lower_chars :: string where
  "lower_chars = ''abcdefghijklmnopqrstuvwxyz''"

definition char_lower :: "char \<Rightarrow> char" where
  "char_lower c = (case map_of (zip upper_chars lower_chars) c of Some l \<Rightarrow> l | None \<Rightarrow> c)"

definition char_upper :: "char \<Rightarrow> char" where
  "char_upper c = (case map_of (zip lower_chars upper_chars) c of Some u \<Rightarrow> u | None \<Rightarrow> c)"

definition is_cased :: "char \<Rightarrow> bool" where
  "is_cased c = (c \<in> set upper_chars \<or> c \<in> set lower_chars)"

text \<open>\<open>str.lower()\<close>\<close>

definition str_lower :: "string \<Rightarrow> string" where
  "str_lower s = map char_lower s"

text \<open>\<open>str.title()\<close>: a cased character is upper-cased when the previous character is
  not cased, lower-cased otherwise.\<close>

fun title_from :: "bool \<Rightarrow> string \<Rightarrow> string" where
  "title_from prev_cased [] = []"
| "title_from prev_cased (c # cs) =
     (if is_cased c
      then (if prev_cased then char_lower c else char_upper c) # title_from True cs
      else c # title_from False cs)"

definition title :: "string \<Rightarrow> string" where
  "title s = title_from False s"

text \<open>Whitespace of \<open>str.split()\<close> and \<open>str.strip()\<close>: tab, newline, vertical tab, form feed,
  carriage return, the separators 0x1c to 0x1f, and space.\<close>

definition is_space :: "char \<Rightarrow> bool" where
  "is_space c = ((of_char c :: nat) \<in> {9, 10, 11, 12, 13, 28, 29, 30, 31, 32})"

text \<open>\<open>s.strip(chars)\<close> for a predicate on characters.\<close>

definition strip_chars :: "(char \<Rightarrow> bool) \<Rightarrow> string \<Rightarrow> string" where
  "strip_chars p s = rev (dropWhile p (rev (dropWhile p s)))"

text \<open>\<open>s.strip()\<close>\<close>

definition strip :: "string \<Rightarrow> string" where
  "strip s = strip_chars is_space s"

text \<open>\<open>s.split()\<close>: the maximal runs of non-whitespace characters. The accumulator
  \<open>cur\<close> is the current run, reversed.\<close>

fun split_from :: "string \<Rightarrow> string \<Rightarrow> string list" where
  "split_from cur [] = (if cur = [] then [] else [rev cur])"
| "split_from cur (c # cs) =
     (if is_space c
      then (if cur = [] then split_from [] cs else rev cur # split_from [] cs)
      else split_from (c # cur) cs)"

definition split_ws :: "string \<Rightarrow> string list" where
  "split_ws s = split_from [] s"

text \<open>\<open>sep.join(words)\<close> for a one-character separator.\<close>

fun join :: "char \<Rightarrow> string list \<Rightarrow> string" where
  "join sep [] = []"
| "join sep [w] = w"
| "join sep (w # ws) = w @ sep # join sep ws"

text \<open>\<open>s.split(sep)\<close> for a one-character separator: every separator ends a field, so
  the result is never empty.\<close>

fun split_on :: "char \<Rightarrow> string \<Rightarrow> string list" where
  "split_on sep [] = [[]]"
| "split_on sep (c # cs) =
     (if c = sep then [] # split_on sep cs
      else (case split_on sep cs of
              [] \<Rightarrow> [[c]]
            | w # ws \<Rightarrow> (c # w) # ws))"

text \<open>\<open>s.rfind(c)\<close>, with \<open>None\<close> for Python's \<open>-1\<close>.\<close>

fun rfind :: "char \<Rightarrow> string \<Rightarrow> nat option" where
  "rfind c [] = None"
| "rfind c (x # xs) =
     (case rfind c xs of
        Some i \<Rightarrow> Some (Suc i)
      | None \<Rightarrow> (if x = c then Some 0 else None))"

text \<open>\<open>xs[:n]\<close> for a Python integer \<open>n\<close>: a negative bound counts from the end.\<close>

definition slice_to :: "'a list \<Rightarrow> int \<Rightarrow> 'a list" where
  "slice_to xs n = (if n < 0 then take (nat (int (length xs) + n)) xs else take (nat n) xs)"

section \<open>Paths\<close>

text \<open>
  A \<open>pathlib\<close> path (POSIX flavour) is the list of its \<open>parts\<close>; an absolute path
  starts with the anchor \<open>/\<close> (or \<open>//\<close>).
\<close>

type_synonym path = "string list"

definition is_anchor :: "string \<Rightarrow> bool" where
  "is_anchor s = (s = ''/'' \<or> s = ''//'')"

definition is_absolute :: "path \<Rightarrow> bool" where
  "is_absolute p = (case p of [] \<Rightarrow> False | a # _ \<Rightarrow> is_anchor a)"

text \<open>\<open>Path(s)\<close>: empty and \<open>.\<close> segments are dropped; exactly two leading slashes
  are kept as the anchor \<open>//\<close>.\<close>

definition Path :: "string \<Rightarrow> path" where
  "Path s =
     (let segs = filter (\<lambda>x. x \<noteq> [] \<and> x \<noteq> ''.'') (split_on CHR ''/'' s);
          anchor = (if take 2 s = ''//'' \<and> take 3 s \<noteq> ''///'' then [''//'']
                    else if take 1 s = ''/'' then [''/'']
                    else [])
      in anchor @ segs)"

text \<open>\<open>a / b\<close> for two paths: an absolute right operand replaces the left one.\<close>

definition pjoin :: "path \<Rightarrow> path \<Rightarrow> path" where
  "pjoin a b = (if is_absolute b then b else a @ b)"

text \<open>\<open>p.name\<close>: the last part, unless it is the anchor.\<close>

definition name :: "path \<Rightarrow> string" where
  "name p = (if p = [] then [] else if is_anchor (last p) \<and> length p = 1 then [] else last p)"

text \<open>\<open>p.suffix\<close>: from the last dot of the name, when that dot is neither the first
  nor the last character.\<close>

definition suffix :: "path \<Rightarrow> string" where
  "suffix p =
     (let nm = name p in
      case rfind CHR ''.'' nm of
        None \<Rightarrow> []
      | Some i \<Rightarrow> (if 0 < i \<and> i + 1 < length nm then drop i nm else []))"

text \<open>\<open>p.stem\<close>: the name without its suffix.\<close>

definition stem :: "path \<Rightarrow> string" where
  "stem p =
     (let nm = name p in
      case rfind CHR ''.'' nm of
        None \<Rightarrow> nm
      | Some i \<Rightarrow> (if 0 < i \<and> i + 1 < length nm then take i nm else nm))"

section \<open>Exceptions\<close>

text \<open>
  The exception classes the code distinguishes, with the message \<open>str(exc)\<close>.
  \<open>PermissionError\<close> and \<open>FileNotFoundError\<close> are subclasses of \<open>OSError\<close>.
\<close>

datatype exn_class =
    PermissionError | FileNotFoundError | FileExistsError | OSError
  | JSONDecodeError | AttributeError | ValueError | OverflowError | OtherException

datatype exn = Exn exn_class string

fun exn_str :: "exn \<Rightarrow> string" where
  "exn_str (Exn _ msg) = msg"

fun is_PermissionError :: "exn \<Rightarrow> bool" where
  "is_PermissionError (Exn c _) = (c = PermissionError)"

fun is_OSError :: "exn \<Rightarrow> bool" where
  "is_OSError (Exn c _) = (c \<in> {PermissionError, FileNotFoundError, FileExistsError, OSError})"

section \<open>Dictionaries\<close>

text \<open>
  A Python \<open>dict\<close> is the list of its items in insertion order. \<open>d[k] = v\<close> replaces the
  value of an existing key in place and appends a new key at the end.
\<close>

type_synonym ('k, 'v) dict = "('k \<times> 'v) list"

definition dict_get :: "('k, 'v) dict \<Rightarrow> 'k \<Rightarrow> 'v \<Rightarrow> 'v" where
  "dict_get d k dflt = (case map_of d k of None \<Rightarrow> dflt | Some v \<Rightarrow> v)"

definition dict_set :: "('k, 'v) dict \<Rightarrow> 'k \<Rightarrow> 'v \<Rightarrow> ('k, 'v) dict" where
  "dict_set d k v = AList.update k v d"

text \<open>\<open>d.setdefault(k, v)\<close>, for its effect on \<open>d\<close>.\<close>

definition dict_setdefault :: "('k, 'v) dict \<Rightarrow> 'k \<Rightarrow> 'v \<Rightarrow> ('k, 'v) dict" where
  "dict_setdefault d k v = (case map_of d k of None \<Rightarrow> d @ [(k, v)] | Some _ \<Rightarrow> d)"

section \<open>core/models.py\<close>

text \<open>
  A confidence score is a real number: the rounding of a Python \<open>float\<close> and its
  special values are not modelled. Counts are Python integers.
\<close>

text \<open>\<open>float(n)\<close> for an integer: the conversion raises \<open>OverflowError\<close> when \<open>n\<close>
  rounds to a magnitude beyond the largest double, that is from \<open>2^1024 - 2^970\<close> on.\<close>

definition float_max_int :: int where
  "float_max_int = 2 ^ 1024 - 2 ^ 970"

definition float_of_int :: "int \<Rightarrow> exn + real" where
  "float_of_int n =
     (if float_max_int \<le> \<bar>n\<bar> then Inl (Exn OverflowError ''int too large to convert to float'')
      else Inr (real_of_int n))"

record FileObject =
  path :: path
  mime_type :: string
  metadata :: "(string, string) dict"
  labels :: "string list"
  confidence_score :: real
  is_consistent :: bool
  target_path :: "path option"
  errors :: "string list"

text \<open>\<open>FileObject(path=p, mime_type=m)\<close> with the dataclass defaults.\<close>

definition new_FileObject :: "path \<Rightarrow> string \<Rightarrow> FileObject" where
  "new_FileObject p m =
     \<lparr>path = p, mime_type = m, metadata = [], labels = [], confidence_score = 0,
      is_consistent = True, target_path = None, errors = []\<rparr>"

section \<open>core/learning.py\<close>

type_synonym label_table = "(string, (string, int) dict) dict"

record LearningStore =
  extension_labels :: label_table
  mime_labels :: label_table

definition empty_store :: LearningStore where
  "empty_store = \<lparr>extension_labels = [], mime_labels = []\<rparr>"

text \<open>One of the two loops of \<open>suggest_labels\<close>:
  \<open>for label, count in items: candidates[label] = candidates.get(label, 0) + count\<close>.\<close>

definition add_counts :: "(string, int) dict \<Rightarrow> (string, int) dict \<Rightarrow> (string, int) dict" where
  "add_counts candidates items =
     foldl (\<lambda>c (label, count). dict_set c label (dict_get c label 0 + count)) candidates items"

text \<open>The dictionary \<open>candidates\<close> that \<open>suggest_labels\<close> builds.\<close>

definition candidates_of :: "LearningStore \<Rightarrow> FileObject \<Rightarrow> (string, int) dict" where
  "candidates_of store file_object =
     (let extension = str_lower (suffix (path file_object));
          mt = mime_type file_object
      in add_counts (add_counts [] (dict_get (extension_labels store) extension []))
           (dict_get (mime_labels store) mt []))"

text \<open>\<open>sorted(candidates, key=candidates.get, reverse=True)\<close>: a stable sort of the keys
  by descending count.\<close>

definition sorted_by_count :: "(string, int) dict \<Rightarrow> string list" where
  "sorted_by_count candidates = sort_key (\<lambda>l. - dict_get candidates l 0) (map fst candidates)"

text \<open>\<open>suggest_labels\<close>. The sorted list of the keys is empty exactly when \<open>candidates\<close>
  is; \<open>best\<close> is \<open>sorted_labels[0]\<close>, a key of \<open>candidates\<close>, and \<open>float\<close> of its count
  may raise.\<close>

definition suggest_labels ::
  "LearningStore \<Rightarrow> FileObject \<Rightarrow> int \<Rightarrow> exn + string list \<times> real" where
  "suggest_labels store file_object limit =
     (let candidates = candidates_of store file_object in
      case sorted_by_count candidates of
        [] \<Rightarrow> Inr ([], 0)
      | best # rest \<Rightarrow>
          (case float_of_int (dict_get candidates best 0) of
             Inl e \<Rightarrow> Inl e
           | Inr c \<Rightarrow> Inr (slice_to (best # rest) limit, min 20 (c * 2))))"

text \<open>The update of one table in \<open>update\<close>:
  \<open>table.setdefault(key, {}); table[key][label] = table[key].get(label, 0) + 1\<close>.\<close>

definition count_label :: "label_table \<Rightarrow> string \<Rightarrow> string \<Rightarrow> label_table" where
  "count_label table key label =
     (let table1 = dict_setdefault table key [];
          inner = dict_get table1 key []
      in dict_set table1 key (dict_set inner label (dict_get inner label 0 + 1)))"

definition update :: "LearningStore \<Rightarrow> FileObject \<Rightarrow> LearningStore" where
  "update store file_object =
     (case labels file_object of
        [] \<Rightarrow> store
      | first_label # _ \<Rightarrow>
          (let extension = str_lower (suffix (path file_object));
               mt = mime_type file_object;
               primary_label = str_lower first_label
           in \<lparr>extension_labels = count_label (extension_labels store) extension primary_label,
               mime_labels = count_label (mime_labels store) mt primary_label\<rparr>))"

text \<open>The counts of a learning state file are non-negative integers.\<close>

definition table_nonneg :: "label_table \<Rightarrow> bool" where
  "table_nonneg table = list_all (\<lambda>(k, inner). list_all (\<lambda>(l, n). 0 \<le> n) inner) table"

definition store_nonneg :: "LearningStore \<Rightarrow> bool" where
  "store_nonneg store = (table_nonneg (extension_labels store) \<and> table_nonneg (mime_labels store))"

section \<open>The operating system\<close>

text \<open>
  The file system calls of \<open>organize_files\<close> and of \<open>LearningStore.save\<close> are parameters:
  each takes the state of the file system and returns the exception it raised, if any,
  and the new state.
  \<^item> \<open>mkdir d\<close> is \<open>d.mkdir(parents=True, exist_ok=True)\<close>;
  \<^item> \<open>move src dst\<close> is \<open>shutil.move(str(src), str(dst))\<close>;
  \<^item> \<open>write_json p v\<close> is \<open>p.write_text(json.dumps(v, indent=2), encoding="utf-8")\<close>.
\<close>

datatype json =
    JNull
  | JBool bool
  | JInt int
  | JFloat real
  | JStr string
  | JArr "json list"
  | JObj "(string \<times> json) list"

record 'fs os_ops =
  mkdir :: "path \<Rightarrow> 'fs \<Rightarrow> exn option \<times> 'fs"
  move :: "path \<Rightarrow> path \<Rightarrow> 'fs \<Rightarrow> exn option \<times> 'fs"
  write_json :: "path \<Rightarrow> json \<Rightarrow> 'fs \<Rightarrow> exn option \<times> 'fs"

section \<open>engines/organization_engine.py\<close>

record OrganizationEngine =
  confidence_threshold :: real
  staging_dir_name :: string

text \<open>The calls of the logger.\<close>

datatype log_event =
    Staging string path
  | SkipMove path
  | Moved path path
  | PermissionErrorMoving path string
  | MoveError path string

record summary =
  moved :: int
  staged :: int

text \<open>\<open>s.startswith(prefix)\<close>\<close>

definition startswith :: "string \<Rightarrow> string \<Rightarrow> bool" where
  "startswith s pre = (take (length pre) s = pre)"

definition code_extensions :: "string list" where
  "code_extensions = [''.py'', ''.js'', ''.ts'', ''.java'', ''.go'', ''.rb'']"

definition determine_category :: "FileObject \<Rightarrow> path" where
  "determine_category file_object =
     (let mt = mime_type file_object;
          label = (case labels file_object of [] \<Rightarrow> ''uncategorized'' | l # _ \<Rightarrow> l);
          extension = str_lower (suffix (path file_object))
      in if startswith mt ''image/'' then pjoin (Path ''Media'') (Path ''Photos'')
         else if startswith mt ''video/'' then pjoin (Path ''Media'') (Path ''Videos'')
         else if startswith mt ''audio/'' then pjoin (Path ''Media'') (Path ''Audio'')
         else if mt = ''application/pdf'' then pjoin (Path ''Documents'') (Path ''PDFs'')
         else if extension \<in> set code_extensions then pjoin (Path ''Code'') (Path ''Scripts'')
         else if startswith mt ''text/'' then pjoin (Path ''Documents'') (Path ''Text'')
         else pjoin (Path ''Documents'') (Path (title label)))"

text \<open>The routing decision at the head of the loop body of \<open>organize_files\<close>: the
  destination directory, the summary with one count incremented, and what is logged.\<close>

definition route ::
  "OrganizationEngine \<Rightarrow> path \<Rightarrow> FileObject \<Rightarrow> summary \<Rightarrow> path \<times> summary \<times> log_event list" where
  "route eng root_dir file_object summ =
     (let staging_root = pjoin root_dir (Path (staging_dir_name eng)) in
      if errors file_object \<noteq> [] \<or> confidence_score file_object < confidence_threshold eng
      then (staging_root, summ\<lparr>staged := staged summ + 1\<rparr>,
            [Staging (if errors file_object \<noteq> [] then ''errors'' else ''low_confidence'')
               (path file_object)])
      else (pjoin root_dir (determine_category file_object), summ\<lparr>moved := moved summ + 1\<rparr>, []))"

text \<open>The body of the loop of \<open>organize_files\<close> for one record. An exception of
  \<open>destination_dir.mkdir\<close> is not caught; an exception of \<open>shutil.move\<close> is logged and
  leaves \<open>target_path\<close> as it is.\<close>

definition organize_one ::
  "'fs os_ops \<Rightarrow> OrganizationEngine \<Rightarrow> path \<Rightarrow> FileObject \<Rightarrow> summary \<times> log_event list \<times> 'fs
     \<Rightarrow> exn + (FileObject \<times> summary \<times> log_event list \<times> 'fs)" where
  "organize_one os eng root_dir file_object st =
     (case st of (summ, lg, fs) \<Rightarrow>
      case route eng root_dir file_object summ of (destination_dir, summ1, ev) \<Rightarrow>
      case mkdir os destination_dir fs of
        (Some e, fs1) \<Rightarrow> Inl e
      | (None, fs1) \<Rightarrow>
          (let destination = pjoin destination_dir (Path (name (path file_object))) in
           if destination = path file_object
           then Inr (file_object, summ1, lg @ ev @ [SkipMove destination], fs1)
           else
             (case move os (path file_object) destination fs1 of
                (None, fs2) \<Rightarrow>
                  Inr (file_object\<lparr>target_path := Some destination\<rparr>, summ1,
                       lg @ ev @ [Moved (path file_object) destination], fs2)
              | (Some e, fs2) \<Rightarrow>
                  Inr (file_object, summ1,
                       lg @ ev @
                         [if is_PermissionError e
                          then PermissionErrorMoving (path file_object) (exn_str e)
                          else MoveError (path file_object) (exn_str e)],
                       fs2))))"

text \<open>The loop of \<open>organize_files\<close>; the records come back with their \<open>target_path\<close>.\<close>

fun organize_loop ::
  "'fs os_ops \<Rightarrow> OrganizationEngine \<Rightarrow> path \<Rightarrow> FileObject list \<Rightarrow> summary \<times> log_event list \<times> 'fs
     \<Rightarrow> exn + (FileObject list \<times> summary \<times> log_event list \<times> 'fs)" where
  "organize_loop os eng root_dir [] st = Inr ([], st)"
| "organize_loop os eng root_dir (file_object # rest) st =
     (case organize_one os eng root_dir file_object st of
        Inl e \<Rightarrow> Inl e
      | Inr (file_object', st') \<Rightarrow>
          (case organize_loop os eng root_dir rest st' of
             Inl e \<Rightarrow> Inl e
           | Inr (rest', st'') \<Rightarrow> Inr (file_object' # rest', st'')))"

definition organize_files ::
  "'fs os_ops \<Rightarrow> OrganizationEngine \<Rightarrow> path \<Rightarrow> FileObject list \<Rightarrow> 'fs
     \<Rightarrow> exn + (FileObject list \<times> summary \<times> log_event list \<times> 'fs)" where
  "organize_files os eng root_dir files fs =
     (let staging_root = pjoin root_dir (Path (staging_dir_name eng)) in
      case mkdir os staging_root fs of
        (Some e, fs1) \<Rightarrow> Inl e
      | (None, fs1) \<Rightarrow> organize_loop os eng root_dir files (\<lparr>moved = 0, staged = 0\<rparr>, [], fs1))"

section \<open>The calls of the operating system\<close>

text \<open>
  An operating system that records its calls: the state is the list of the calls made
  so far, each with the exception it raised, and the state of the system underneath.
\<close>

datatype os_call =
    Mkdir path "exn option"
  | Move path path "exn option"
  | WriteJson path json "exn option"

definition traced :: "'fs os_ops \<Rightarrow> (os_call list \<times> 'fs) os_ops" where
  "traced os =
     \<lparr>mkdir = (\<lambda>d (calls, s). case mkdir os d s of (e, s') \<Rightarrow> (e, calls @ [Mkdir d e], s')),
      move = (\<lambda>src dst (calls, s).
                case move os src dst s of (e, s') \<Rightarrow> (e, calls @ [Move src dst e], s')),
      write_json = (\<lambda>p v (calls, s).
                case write_json os p v s of (e, s') \<Rightarrow> (e, calls @ [WriteJson p v e], s'))\<rparr>"

section \<open>The routing of the specification\<close>

text \<open>
  The destination directory of a record in the words of the specification: the staging
  directory when the record has errors or a confidence below the threshold, the root
  joined with the category of the record otherwise; and the destination, the name of the
  file in that directory.
\<close>

definition spec_destination_dir :: "OrganizationEngine \<Rightarrow> path \<Rightarrow> FileObject \<Rightarrow> path" where
  "spec_destination_dir eng root_dir f =
     (if errors f \<noteq> [] \<or> confidence_score f < confidence_threshold eng
      then pjoin root_dir (Path (staging_dir_name eng))
      else pjoin root_dir (determine_category f))"

definition spec_destination :: "OrganizationEngine \<Rightarrow> path \<Rightarrow> FileObject \<Rightarrow> path" where
  "spec_destination eng root_dir f = pjoin (spec_destination_dir eng root_dir f) (Path (name (path f)))"

text \<open>
  What the specification allows for one record \<open>f\<close> with destination directory \<open>d\<close> and
  destination \<open>dest\<close>: the directory is created; a file already at its destination is not
  moved and the record is unchanged; any other file is moved to the destination, and the
  record gets the destination as its \<open>target_path\<close> exactly when the move raised nothing.
\<close>

fun spec_record_calls :: "path \<Rightarrow> path \<Rightarrow> FileObject \<Rightarrow> FileObject \<Rightarrow> os_call list \<Rightarrow> bool" where
  "spec_record_calls d dest f f' [Mkdir d' None] = (d' = d \<and> dest = path f \<and> f' = f)"
| "spec_record_calls d dest f f' [Mkdir d' None, Move src dst outcome] =
     (d' = d \<and> src = path f \<and> dst = dest \<and> dest \<noteq> path f \<and>
      f' = (case outcome of None \<Rightarrow> f\<lparr>target_path := Some dest\<rparr> | Some e \<Rightarrow> f))"
| "spec_record_calls d dest f f' calls = False"

section \<open>LearningStore.save and LearningStore.load\<close>

definition counts_json :: "(string, int) dict \<Rightarrow> json" where
  "counts_json inner = JObj (map (\<lambda>(label, n). (label, JInt n)) inner)"

definition table_json :: "label_table \<Rightarrow> json" where
  "table_json table = JObj (map (\<lambda>(key, inner). (key, counts_json inner)) table)"

text \<open>\<open>p.parent\<close>: the anchor is its own parent.\<close>

definition parent :: "path \<Rightarrow> path" where
  "parent p = (if length p = 1 \<and> is_anchor (hd p) then p else butlast p)"

definition save :: "'fs os_ops \<Rightarrow> LearningStore \<Rightarrow> path \<Rightarrow> 'fs \<Rightarrow> exn option \<times> 'fs" where
  "save os store p fs =
     (case mkdir os (parent p) fs of
        (Some e, fs1) \<Rightarrow> (Some e, fs1)
      | (None, fs1) \<Rightarrow>
          write_json os p
            (JObj [(''extension_labels'', table_json (extension_labels store)),
                   (''mime_labels'', table_json (mime_labels store))])
            fs1)"

text \<open>
  What \<open>load\<close> finds at the path: no file, a file on which \<open>json.loads\<close> raises
  \<open>JSONDecodeError\<close>, or a file that \<open>json.loads\<close> decodes to a value. A decoded object
  is the list of its items (the keys of a Python \<open>dict\<close> are distinct).
\<close>

datatype file_state = Absent | NotJson | Json json

text \<open>
  \<open>load\<close> does not check the fields it reads: the store it returns holds whatever
  values the file has under \<open>extension_labels\<close> and \<open>mime_labels\<close>.
\<close>

record loaded_store =
  loaded_extension_labels :: json
  loaded_mime_labels :: json

definition load :: "file_state \<Rightarrow> exn + loaded_store" where
  "load st =
     (case st of
        Absent \<Rightarrow> Inr \<lparr>loaded_extension_labels = JObj [], loaded_mime_labels = JObj []\<rparr>
      | NotJson \<Rightarrow> Inl (Exn JSONDecodeError ''Expecting value'')
      | Json data \<Rightarrow>
          (case data of
             JObj items \<Rightarrow>
               Inr \<lparr>loaded_extension_labels = dict_get items ''extension_labels'' (JObj []),
                    loaded_mime_labels = dict_get items ''mime_labels'' (JObj [])\<rparr>
           | _ \<Rightarrow> Inl (Exn AttributeError ''object has no attribute get'')))"

section \<open>main.py: OrganizeCommand.execute\<close>

record CommandContext =
  ctx_root :: path
  ctx_confidence_threshold :: real
  ctx_staging_dir_name :: string
  learning_state_path :: path

text \<open>The body of the loop over the records after \<open>organize_files\<close>.\<close>

definition learn :: "CommandContext \<Rightarrow> LearningStore \<Rightarrow> FileObject \<Rightarrow> LearningStore" where
  "learn context store file_object =
     (if errors file_object \<noteq> [] then store
      else if confidence_score file_object < ctx_confidence_threshold context then store
      else update store file_object)"

text \<open>
  \<open>OrganizeCommand.execute\<close>. The second component of the result is the learning store
  of the context when the call ends, by returning or by raising. An exception of
  \<open>organize_files\<close> leaves the store as it was; an exception of \<open>save\<close> comes after the
  updates.
\<close>

definition OrganizeCommand_execute ::
  "'fs os_ops \<Rightarrow> CommandContext \<Rightarrow> FileObject list \<Rightarrow> LearningStore \<Rightarrow> 'fs
     \<Rightarrow> (exn + (FileObject list \<times> summary \<times> log_event list \<times> 'fs)) \<times> LearningStore" where
  "OrganizeCommand_execute os context files store fs =
     (let engine = \<lparr>confidence_threshold = ctx_confidence_threshold context,
                     staging_dir_name = ctx_staging_dir_name context\<rparr>
      in case organize_files os engine (ctx_root context) files fs of
           Inl e \<Rightarrow> (Inl e, store)
         | Inr (files', summ, lg, fs1) \<Rightarrow>
             (let store' = foldl (learn context) store files' in
              case save os store' (learning_state_path context) fs1 of
                (Some e, fs2) \<Rightarrow> (Inl e, store')
              | (None, fs2) \<Rightarrow> (Inr (files', summ, lg, fs2), store')))"

section \<open>A file system\<close>

text \<open>
  The file system of the cleanup engine, and of the examples: the existing paths with
  their kind, in the order in which a directory scan lists them, and the directories the
  process has no permission on (listing them, and creating, removing or renaming an
  entry in them, raises \<open>PermissionError\<close>). Symbolic links and file contents are not
  modelled.
\<close>

datatype kind = File | Dir

record filesystem =
  entries :: "(path \<times> kind) list"
  denied :: "path list"

text \<open>\<open>p.is_dir()\<close>\<close>

definition is_dir :: "filesystem \<Rightarrow> path \<Rightarrow> bool" where
  "is_dir fs p = (map_of (entries fs) p = Some Dir)"

text \<open>\<open>p\<close> lies below the directory \<open>d\<close>.\<close>

definition below :: "path \<Rightarrow> path \<Rightarrow> bool" where
  "below d p = (length d < length p \<and> take (length d) p = d)"

text \<open>\<open>root.rglob("*")\<close>: every path below \<open>root_dir\<close>; the scan does not enter a
  directory it may not list.\<close>

definition rglob :: "filesystem \<Rightarrow> path \<Rightarrow> path list" where
  "rglob fs root_dir =
     map fst (filter
       (\<lambda>(p, k). below root_dir p \<and>
          list_all (\<lambda>n. take n p \<notin> set (denied fs)) [length root_dir ..< length p])
       (entries fs))"

text \<open>\<open>d.iterdir()\<close>, as the list of the entries of \<open>d\<close>.\<close>

definition iterdir :: "filesystem \<Rightarrow> path \<Rightarrow> exn + path list" where
  "iterdir fs d =
     (if d \<in> set (denied fs) then Inl (Exn PermissionError ''Permission denied'')
      else if \<not> is_dir fs d then Inl (Exn FileNotFoundError ''No such directory'')
      else Inr (map fst (filter (\<lambda>(p, k). p \<noteq> [] \<and> butlast p = d) (entries fs))))"

text \<open>\<open>d.rmdir()\<close>\<close>

definition rmdir :: "filesystem \<Rightarrow> path \<Rightarrow> exn + filesystem" where
  "rmdir fs d =
     (if butlast d \<in> set (denied fs) then Inl (Exn PermissionError ''Permission denied'')
      else if \<not> is_dir fs d then Inl (Exn FileNotFoundError ''No such directory'')
      else if filter (\<lambda>(p, k). p \<noteq> [] \<and> butlast p = d) (entries fs) \<noteq> []
      then Inl (Exn OSError ''Directory not empty'')
      else Inr (fs\<lparr>entries := filter (\<lambda>(p, k). p \<noteq> d) (entries fs)\<rparr>))"

section \<open>engines/cleanup_engine.py\<close>

text \<open>The loop of \<open>remove_empty_directories\<close>: only \<open>PermissionError\<close> is caught.\<close>

fun sweep :: "path list \<Rightarrow> int \<times> filesystem \<Rightarrow> exn + (int \<times> filesystem)" where
  "sweep [] st = Inr st"
| "sweep (directory # rest) (removed_count, fs) =
     (case iterdir fs directory of
        Inl e \<Rightarrow> (if is_PermissionError e then sweep rest (removed_count, fs) else Inl e)
      | Inr children \<Rightarrow>
          (if children = []
           then (case rmdir fs directory of
                   Inl e \<Rightarrow> (if is_PermissionError e then sweep rest (removed_count, fs) else Inl e)
                 | Inr fs' \<Rightarrow> sweep rest (removed_count + 1, fs'))
           else sweep rest (removed_count, fs)))"

text \<open>\<open>sorted(..., key=lambda p: len(p.parts), reverse=True)\<close> is a stable sort by
  descending number of parts.\<close>

definition remove_empty_directories :: "filesystem \<Rightarrow> path \<Rightarrow> exn + (int \<times> filesystem)" where
  "remove_empty_directories fs root_dir =
     (let directories =
            sort_key (\<lambda>p. - int (length p)) (filter (is_dir fs) (rglob fs root_dir))
      in sweep directories (0, fs))"

section \<open>The file system as the operating system of the organizer\<close>

text \<open>Creating a directory and its missing parents, outermost first.\<close>

fun mkdir_each :: "path list \<Rightarrow> filesystem \<Rightarrow> exn option \<times> filesystem" where
  "mkdir_each [] fs = (None, fs)"
| "mkdir_each (d # ds) fs =
     (case map_of (entries fs) d of
        Some Dir \<Rightarrow> mkdir_each ds fs
      | Some File \<Rightarrow> (Some (Exn FileExistsError ''File exists''), fs)
      | None \<Rightarrow>
          (if butlast d \<in> set (denied fs) then (Some (Exn PermissionError ''Permission denied''), fs)
           else mkdir_each ds (fs\<lparr>entries := entries fs @ [(d, Dir)]\<rparr>)))"

definition fs_mkdir :: "path \<Rightarrow> filesystem \<Rightarrow> exn option \<times> filesystem" where
  "fs_mkdir d fs = mkdir_each (map (\<lambda>n. take n d) [1 ..< Suc (length d)]) fs"

text \<open>Moving a file to a path that is not a directory: a rename that replaces the
  destination.\<close>

definition fs_move :: "path \<Rightarrow> path \<Rightarrow> filesystem \<Rightarrow> exn option \<times> filesystem" where
  "fs_move src dst fs =
     (case map_of (entries fs) src of
        None \<Rightarrow> (Some (Exn FileNotFoundError ''No such file''), fs)
      | Some k \<Rightarrow>
          (if butlast src \<in> set (denied fs) \<or> butlast dst \<in> set (denied fs)
           then (Some (Exn PermissionError ''Permission denied''), fs)
           else (None, fs\<lparr>entries := filter (\<lambda>(p, _). p \<noteq> src \<and> p \<noteq> dst) (entries fs) @ [(dst, k)]\<rparr>)))"

definition fs_write_json :: "path \<Rightarrow> json \<Rightarrow> filesystem \<Rightarrow> exn option \<times> filesystem" where
  "fs_write_json p v fs =
     (if \<not> is_dir fs (butlast p) then (Some (Exn FileNotFoundError ''No such directory''), fs)
      else if butlast p \<in> set (denied fs) then (Some (Exn PermissionError ''Permission denied''), fs)
      else (None, fs\<lparr>entries := filter (\<lambda>(q, _). q \<noteq> p) (entries fs) @ [(p, File)]\<rparr>))"

definition fs_os :: "filesystem os_ops" where
  "fs_os = \<lparr>mkdir = fs_mkdir, move = fs_move, write_json = fs_write_json\<rparr>"

text \<open>No file anywhere under the directory \<open>d\<close>.\<close>

definition file_free :: "filesystem \<Rightarrow> path \<Rightarrow> bool" where
  "file_free fs d = list_all (\<lambda>(p, k). \<not> (k = File \<and> below d p)) (entries fs)"

section \<open>engines/metadata_processor.py\<close>

text \<open>
  The optional libraries and the file reads are parameters of the processor:
  \<^item> \<open>magic\<close> is \<open>magic.Magic(mime=True).from_file\<close>, or \<open>None\<close> when the module is
    not installed;
  \<^item> \<open>guess_type\<close> is the first component of \<open>mimetypes.guess_type\<close>;
  \<^item> \<open>parser\<close> is \<open>tika.parser.from_file\<close>, or \<open>None\<close>;
  \<^item> \<open>read_text\<close> is \<open>file_path.read_text(encoding="utf-8", errors="ignore")\<close>;
  \<^item> \<open>tfidf\<close> is the \<open>TfidfVectorizer\<close> with \<open>stop_words="english"\<close> and
    \<open>max_features=5\<close>, fitted on one text: it returns the feature names and the mean of
    the weights, or raises; \<open>None\<close> when \<open>sklearn\<close> is not installed.
\<close>

text \<open>A metadata value of the parser, by what the code reads of it: a string, or another
  value with its truth value and its \<open>str()\<close>.\<close>

datatype tika_value = TStr string | TOther bool string

fun truthy :: "tika_value \<Rightarrow> bool" where
  "truthy (TStr s) = (s \<noteq> [])"
| "truthy (TOther b _) = b"

fun str_of :: "tika_value \<Rightarrow> string" where
  "str_of (TStr s) = s"
| "str_of (TOther _ s) = s"

record tika_parsed =
  parsed_metadata :: "(string, tika_value) dict option"
  parsed_content :: "string option"

record environment =
  magic :: "(path \<Rightarrow> exn + string) option"
  guess_type :: "string \<Rightarrow> string option"
  parser :: "(path \<Rightarrow> exn + tika_parsed) option"
  read_text :: "path \<Rightarrow> exn + string"
  tfidf :: "(string \<Rightarrow> exn + string list \<times> real) option"

definition essential_metadata_keys :: "string list" where
  "essential_metadata_keys = [''title'', ''author'', ''created'']"

text \<open>The result of an extraction: the metadata and the content.\<close>

type_synonym MetadataResult = "(string, string) dict \<times> string"

text \<open>\<open>extract_metadata\<close>, that is \<open>DefaultStrategy.extract\<close>. The dictionary comprehension stores the items in
  order, a later item with the same lower-cased key replacing the value of an earlier
  one; without the parser, an \<open>OSError\<close> of the read gives an empty content.\<close>

definition extract_metadata :: "environment \<Rightarrow> path \<Rightarrow> exn + MetadataResult" where
  "extract_metadata env file_path =
     (case parser env of
        Some from_file \<Rightarrow>
          (case from_file file_path of
             Inl e \<Rightarrow> Inl e
           | Inr parsed \<Rightarrow>
               Inr (foldl (\<lambda>d (key, v). dict_set d (str_lower key) (str_of v)) []
                      (filter (\<lambda>(key, v). truthy v)
                         (case parsed_metadata parsed of None \<Rightarrow> [] | Some m \<Rightarrow> m)),
                    (case parsed_content parsed of None \<Rightarrow> [] | Some c \<Rightarrow> c)))
      | None \<Rightarrow>
          (case read_text env file_path of
             Inl e \<Rightarrow> (if is_OSError e then Inr ([], []) else Inl e)
           | Inr c \<Rightarrow> Inr ([], c)))"

definition detect_mime_type :: "environment \<Rightarrow> path \<Rightarrow> exn + string" where
  "detect_mime_type env file_path =
     (case magic env of
        Some from_file \<Rightarrow> from_file file_path
      | None \<Rightarrow>
          Inr (case guess_type env (name file_path) of
                 None \<Rightarrow> ''application/octet-stream''
               | Some m \<Rightarrow> (if m = [] then ''application/octet-stream'' else m)))"

definition validate_filename :: "path \<Rightarrow> (string, string) dict \<Rightarrow> bool" where
  "validate_filename file_path md =
     (case map_of md ''title'' of
        None \<Rightarrow> True
      | Some t \<Rightarrow>
          (if t = [] then True
           else strip (str_lower (stem file_path)) = strip (str_lower t)))"

text \<open>The word count of the fallback:
  \<open>for word in words: frequency[word] = frequency.get(word, 0) + 1\<close>.\<close>

definition word_frequency :: "string list \<Rightarrow> (string, int) dict" where
  "word_frequency words = foldl (\<lambda>frequency w. dict_set frequency w (dict_get frequency w 0 + 1)) [] words"

definition generate_labels ::
  "environment \<Rightarrow> string \<Rightarrow> (string, string) dict \<Rightarrow> exn + string list \<times> real" where
  "generate_labels env content md =
     (let metadata_labels =
            map (\<lambda>(key, v). str_lower v)
              (filter (\<lambda>(key, v). key \<in> set essential_metadata_keys \<and> v \<noteq> []) md)
      in if metadata_labels \<noteq> [] then Inr (take 5 metadata_labels, 90)
         else
           (let sample_text = take 2000 (join CHR '' '' (split_ws content)) in
            if sample_text = [] then Inr ([], 0)
            else
              (case tfidf env of
                 Some fit \<Rightarrow>
                   (case fit sample_text of
                      Inl e \<Rightarrow> Inl e
                    | Inr (feature_names, mean_weight) \<Rightarrow>
                        Inr (feature_names, min 100 (mean_weight * 1000)))
               | None \<Rightarrow>
                   (let words = map (\<lambda>w. str_lower (strip_chars (\<lambda>c. c \<in> set ''.,!?:;()[]{}'') w))
                                  (split_ws sample_text);
                        long_words = filter (\<lambda>w. 3 < length w) words;
                        frequency = word_frequency long_words;
                        labs = take 5 (sort_key (\<lambda>w. - dict_get frequency w 0) (map fst frequency))
                    in Inr (labs,
                            if labs \<noteq> [] then min 100 (50 + real (length labs) * 10) else 0)))))"

definition image_extensions :: "string list" where
  "image_extensions = [''.jpg'', ''.jpeg'', ''.png'', ''.gif'', ''.bmp'', ''.webp'']"

text \<open>The media overrides of \<open>process_file\<close>, on the pair \<open>labels, confidence\<close>.\<close>

definition media_override :: "FileObject \<Rightarrow> path \<Rightarrow> string list \<times> real \<Rightarrow> string list \<times> real" where
  "media_override file_object file_path lc =
     (case lc of (labs, confidence) \<Rightarrow>
      let (labs1, confidence1) =
            (if startswith (mime_type file_object) ''image/''
                \<or> str_lower (suffix file_path) \<in> set image_extensions
             then (if labs = [] then [''photo''] else labs, max confidence 85)
             else (labs, confidence));
          (labs2, confidence2) =
            (if labs1 = [] \<and> startswith (mime_type file_object) ''video/''
             then ([''video''], 85)
             else (labs1, confidence1))
      in if labs2 = [] \<and> startswith (mime_type file_object) ''audio/''
         then ([''audio''], 85)
         else (labs2, confidence2))"

text \<open>The learning augmentation of \<open>process_file\<close>, on the pair \<open>labels, confidence\<close>;
  \<open>suggest_labels\<close> is called with its default limit of 3, and its exception is one of
  the body of the \<open>try\<close>.\<close>

definition learning_augment ::
  "LearningStore option \<Rightarrow> FileObject \<Rightarrow> string list \<times> real \<Rightarrow> exn + string list \<times> real" where
  "learning_augment learning_store file_object lc =
     (case lc of (labs, confidence) \<Rightarrow>
      case learning_store of
        None \<Rightarrow> Inr (labs, confidence)
      | Some store \<Rightarrow>
          (case suggest_labels store file_object 3 of
             Inl e \<Rightarrow> Inl e
           | Inr (suggested, boost) \<Rightarrow>
               (if suggested \<noteq> []
                then Inr (if labs = [] \<or> labs \<in> {[''photo''], [''video''], [''audio'']}
                          then suggested else labs,
                          min 100 (confidence + boost))
                else Inr (labs, confidence))))"

text \<open>The body of the \<open>try\<close> of \<open>process_file\<close>: the record as the body leaves it, and
  the exception that ended it, if any.\<close>

definition process_body ::
  "environment \<Rightarrow> LearningStore option \<Rightarrow> FileObject \<Rightarrow> path \<Rightarrow> exn option \<times> FileObject" where
  "process_body env learning_store file_object file_path =
     (case extract_metadata env file_path of
        Inl e \<Rightarrow> (Some e, file_object)
      | Inr (md, content) \<Rightarrow>
          (let file_object1 = file_object\<lparr>metadata := md,
                                           is_consistent := validate_filename file_path md\<rparr>
           in case generate_labels env (take 500 content) md of
                Inl e \<Rightarrow> (Some e, file_object1)
              | Inr lc \<Rightarrow>
                  (case learning_augment learning_store file_object1
                          (media_override file_object1 file_path lc) of
                     Inl e \<Rightarrow> (Some e, file_object1)
                   | Inr (labs, confidence) \<Rightarrow>
                       (None, file_object1\<lparr>labels := labs, confidence_score := confidence\<rparr>))))"

text \<open>\<open>process_file\<close>: the MIME detection comes before the \<open>try\<close>; both handlers append
  \<open>str(exc)\<close> to the errors of the record.\<close>

definition process_file :: "environment \<Rightarrow> LearningStore option \<Rightarrow> path \<Rightarrow> exn + FileObject" where
  "process_file env learning_store file_path =
     (case detect_mime_type env file_path of
        Inl e \<Rightarrow> Inl e
      | Inr mt \<Rightarrow>
          (case process_body env learning_store (new_FileObject file_path mt) file_path of
             (None, file_object) \<Rightarrow> Inr file_object
           | (Some e, file_object) \<Rightarrow>
               Inr (file_object\<lparr>errors := errors file_object @ [exn_str e]\<rparr>)))"

section \<open>Example inputs\<close>

text \<open>A store that has seen three labels for \<open>.txt\<close> five times each, and a text file
  labelled \<open>D\<close>.\<close>

definition store_abc :: LearningStore where
  "store_abc =
     \<lparr>extension_labels = [(''.txt'', [(''a'', 5), (''b'', 5), (''c'', 5)])], mime_labels = []\<rparr>"

definition file_d :: FileObject where
  "file_d = (new_FileObject [''/'', ''r'', ''x.TXT''] ''text/plain'')\<lparr>labels := [''D'']\<rparr>"

text \<open>
  A tree under \<open>/r\<close> with one text file to be filed, one in a directory without
  permissions, one already in its category directory, one unclassified file, and one
  file whose processing recorded an error.
\<close>

definition tree_r :: filesystem where
  "tree_r =
     \<lparr>entries =
        [([''/''], Dir), ([''/'', ''r''], Dir),
         ([''/'', ''r'', ''in''], Dir), ([''/'', ''r'', ''in'', ''a.txt''], File),
         ([''/'', ''r'', ''locked''], Dir), ([''/'', ''r'', ''locked'', ''b.txt''], File),
         ([''/'', ''r'', ''Documents''], Dir), ([''/'', ''r'', ''Documents'', ''Text''], Dir),
         ([''/'', ''r'', ''Documents'', ''Text'', ''c.txt''], File),
         ([''/'', ''r'', ''in'', ''m.bin''], File), ([''/'', ''r'', ''in'', ''e.txt''], File)],
      denied = [[''/'', ''r'', ''locked'']]\<rparr>"

definition file_a :: FileObject where
  "file_a = (new_FileObject [''/'', ''r'', ''in'', ''a.txt''] ''text/plain'')
              \<lparr>labels := [''notes''], confidence_score := 80\<rparr>"

definition file_b :: FileObject where
  "file_b = (new_FileObject [''/'', ''r'', ''locked'', ''b.txt''] ''text/plain'')
              \<lparr>labels := [''report''], confidence_score := 90\<rparr>"

definition file_c :: FileObject where
  "file_c = (new_FileObject [''/'', ''r'', ''Documents'', ''Text'', ''c.txt''] ''text/plain'')
              \<lparr>labels := [''plan''], confidence_score := 75\<rparr>"

definition file_m :: FileObject where
  "file_m = new_FileObject [''/'', ''r'', ''in'', ''m.bin''] ''application/octet-stream''"

text \<open>A text file with a confidence of 95 and an error recorded.\<close>

definition file_e :: FileObject where
  "file_e = (new_FileObject [''/'', ''r'', ''in'', ''e.txt''] ''text/plain'')
              \<lparr>labels := [''memo''], confidence_score := 95, errors := [''boom'']\<rparr>"

definition engine_70 :: OrganizationEngine where
  "engine_70 = \<lparr>confidence_threshold = 70, staging_dir_name = ''_UNKNOWN_NEEDS_REVIEW''\<rparr>"

definition context_r :: CommandContext where
  "context_r =
     \<lparr>ctx_root = [''/'', ''r''], ctx_confidence_threshold = 70,
      ctx_staging_dir_name = ''_UNKNOWN_NEEDS_REVIEW'',
      learning_state_path = [''/'', ''r'', ''.file_organizer_learning.json'']\<rparr>"

text \<open>
  An installation without the optional libraries, reading every file as the text
  \<open>Finance report finance\<close> and guessing the MIME type from the extension; the same
  installation with a MIME detector that cannot open the file; and stores that have seen
  the label \<open>notes\<close> for \<open>.txt\<close>, and \<open>design\<close> for \<open>.png\<close>, three times.
\<close>

definition env_plain :: environment where
  "env_plain =
     \<lparr>magic = None,
      guess_type = (\<lambda>nm. if str_lower (suffix [nm]) = ''.txt'' then Some ''text/plain''
                          else if str_lower (suffix [nm]) = ''.png'' then Some ''image/png''
                          else None),
      parser = None,
      read_text = (\<lambda>p. Inr ''Finance report finance''),
      tfidf = None\<rparr>"

definition env_magic_denied :: environment where
  "env_magic_denied = env_plain\<lparr>magic := Some (\<lambda>p. Inl (Exn PermissionError ''Permission denied''))\<rparr>"

definition env_unreadable :: environment where
  "env_unreadable =
     env_plain\<lparr>parser := Some (\<lambda>p. Inl (Exn PermissionError ''Permission denied''))\<rparr>"

definition store_notes :: LearningStore where
  "store_notes = \<lparr>extension_labels = [(''.txt'', [(''notes'', 3)])], mime_labels = []\<rparr>"

text \<open>Stores with a negative count, and with a count beyond the range of a float.\<close>

definition store_negative :: LearningStore where
  "store_negative =
     \<lparr>extension_labels = [(''.png'', [(''draft'', - 5)]), (''.txt'', [(''d'', - 5)])],
      mime_labels = []\<rparr>"

definition store_huge :: LearningStore where
  "store_huge = \<lparr>extension_labels = [(''.txt'', [(''big'', 2 ^ 1024)])], mime_labels = []\<rparr>"

definition store_design :: LearningStore where
  "store_design = \<lparr>extension_labels = [(''.png'', [(''design'', 3)])], mime_labels = []\<rparr>"

text \<open>The tree of the test of the cleanup engine: an empty directory, an empty directory
  in a directory, and a directory with a file.\<close>

definition tree_tmp :: filesystem where
  "tree_tmp =
     \<lparr>entries =
        [([''/''], Dir), ([''/'', ''tmp''], Dir),
         ([''/'', ''tmp'', ''empty''], Dir),
         ([''/'', ''tmp'', ''nested''], Dir),
         ([''/'', ''tmp'', ''nested'', ''empty''], Dir),
         ([''/'', ''tmp'', ''non_empty''], Dir),
         ([''/'', ''tmp'', ''non_empty'', ''file.txt''], File)],
      denied = []\<rparr>"

section \<open>Properties of dictionaries and of the learning store\<close>

lemma dict_get_set: "dict_get (dict_set d k v) k' dflt = (if k' = k then v else dict_get d k' dflt)"
  by (simp add: dict_get_def dict_set_def update_conv')

lemma keys_dict_set: "fst ` set (dict_set d k v) = insert k (fst ` set d)"
  by (simp add: dict_set_def dom_update)

lemma distinct_dict_set: "distinct (map fst d) \<Longrightarrow> distinct (map fst (dict_set d k v))"
  by (simp add: dict_set_def distinct_update)

lemma set_dict_set_nonneg:
  "\<forall>(l, n) \<in> set d. P n \<Longrightarrow> P v \<Longrightarrow> \<forall>(l, n) \<in> set (dict_set d k v). P n"
  unfolding dict_set_def by (induction d) auto

lemma add_counts_Cons:
  "add_counts c ((l, n) # items) = add_counts (dict_set c l (dict_get c l 0 + n)) items"
  by (simp add: add_counts_def)

lemma add_counts_Nil: "add_counts c [] = c"
  by (simp add: add_counts_def)

lemma distinct_add_counts: "distinct (map fst c) \<Longrightarrow> distinct (map fst (add_counts c items))"
proof (induction items arbitrary: c)
  case Nil then show ?case by (simp add: add_counts_Nil)
next
  case (Cons a items)
  obtain l n where a: "a = (l, n)" by (cases a)
  show ?case unfolding a add_counts_Cons
    by (rule Cons.IH) (simp add: distinct_dict_set Cons.prems)
qed

lemma keys_add_counts: "fst ` set (add_counts c items) = fst ` set c \<union> fst ` set items"
proof (induction items arbitrary: c)
  case Nil then show ?case by (simp add: add_counts_Nil)
next
  case (Cons a items)
  obtain l n where a: "a = (l, n)" by (cases a)
  show ?case unfolding a add_counts_Cons Cons.IH keys_dict_set by auto
qed

lemma add_counts_mono:
  "\<forall>(l, n) \<in> set items. 0 \<le> n \<Longrightarrow> dict_get c k 0 \<le> dict_get (add_counts c items) k 0"
proof (induction items arbitrary: c)
  case Nil then show ?case by (simp add: add_counts_Nil)
next
  case (Cons a items)
  obtain l n where a: "a = (l, n)" by (cases a)
  have n: "0 \<le> n" using Cons.prems a by simp
  have "dict_get c k 0 \<le> dict_get (dict_set c l (dict_get c l 0 + n)) k 0"
    using n by (simp add: dict_get_set)
  also have "\<dots> \<le> dict_get (add_counts (dict_set c l (dict_get c l 0 + n)) items) k 0"
    by (rule Cons.IH) (use Cons.prems in simp)
  finally show ?case unfolding a add_counts_Cons .
qed

lemma add_counts_ge:
  "\<forall>(l, n) \<in> set items. 0 \<le> n \<Longrightarrow> (k, m) \<in> set items \<Longrightarrow> 0 \<le> dict_get c k 0
     \<Longrightarrow> m \<le> dict_get (add_counts c items) k 0"
proof (induction items arbitrary: c)
  case Nil then show ?case by simp
next
  case (Cons a items)
  obtain l n where a: "a = (l, n)" by (cases a)
  have n: "0 \<le> n" using Cons.prems a by simp
  have rest: "\<forall>(l, n) \<in> set items. 0 \<le> n" using Cons.prems by simp
  let ?c = "dict_set c l (dict_get c l 0 + n)"
  have c0: "0 \<le> dict_get ?c k 0" using n Cons.prems(3) by (auto simp add: dict_get_set)
  show ?case
  proof (cases "(k, m) \<in> set items")
    case True
    then show ?thesis unfolding a add_counts_Cons using Cons.IH [OF rest True c0] by simp
  next
    case False
    then have km: "k = l" "m = n" using Cons.prems(2) a by auto
    have "m \<le> dict_get ?c k 0" using km Cons.prems(3) by (simp add: dict_get_set)
    also have "\<dots> \<le> dict_get (add_counts ?c items) k 0" by (rule add_counts_mono [OF rest])
    finally show ?thesis unfolding a add_counts_Cons .
  qed
qed

lemma map_of_setdefault:
  "map_of (dict_setdefault d k v) k' = (if k' = k \<and> map_of d k = None then Some v else map_of d k')"
  by (auto simp: dict_setdefault_def map_add_def split: option.splits)

lemma dict_get_setdefault: "dict_get (dict_setdefault d k v) k v = dict_get d k v"
  by (simp add: dict_get_def map_of_setdefault split: option.splits)

lemma count_label_get:
  "dict_get (count_label table key label) key [] =
     dict_set (dict_get table key []) label (dict_get (dict_get table key []) label 0 + 1)"
  by (simp add: count_label_def Let_def dict_get_set dict_get_setdefault)

lemma in_set_dict_set: "(k, v) \<in> set (dict_set d k v)"
  unfolding dict_set_def by (induction d) auto

lemma dict_get_nonneg: "\<forall>(l, n) \<in> set d. (0::int) \<le> n \<Longrightarrow> 0 \<le> dict_get d k 0"
proof (cases "map_of d k")
  case None
  then show ?thesis by (simp add: dict_get_def)
next
  case (Some v)
  assume a: "\<forall>(l, n) \<in> set d. (0::int) \<le> n"
  have "(k, v) \<in> set d" using Some by (rule map_of_SomeD)
  then have "0 \<le> v" using a by auto
  then show ?thesis using Some by (simp add: dict_get_def)
qed

lemma table_nonneg_get:
  assumes "table_nonneg table"
  shows "\<forall>(l, n) \<in> set (dict_get table key []). 0 \<le> n"
proof (cases "map_of table key")
  case None
  then show ?thesis by (simp add: dict_get_def)
next
  case (Some inner)
  have "(key, inner) \<in> set table" using Some by (rule map_of_SomeD)
  then have "list_all (\<lambda>(l, n). 0 \<le> n) inner"
    using assms by (auto simp: table_nonneg_def list_all_iff)
  then show ?thesis using Some by (simp add: dict_get_def list_all_iff)
qed

lemma count_label_inner_nonneg:
  assumes "table_nonneg table"
  shows "\<forall>(l, n) \<in> set (dict_get (count_label table key label) key []). 0 \<le> n"
proof -
  let ?inner = "dict_get table key []"
  have a: "\<forall>(l, n) \<in> set ?inner. 0 \<le> n" by (rule table_nonneg_get [OF assms])
  have "0 \<le> dict_get ?inner label 0" by (rule dict_get_nonneg [OF a])
  then have "\<forall>(l, n) \<in> set (dict_set ?inner label (dict_get ?inner label 0 + 1)). (0::int) \<le> n"
    by (intro set_dict_set_nonneg [OF a]) simp
  then show ?thesis by (simp add: count_label_get)
qed

lemma count_label_has:
  assumes "table_nonneg table"
  shows "\<exists>n\<ge>1. (label, n) \<in> set (dict_get (count_label table key label) key [])"
proof -
  let ?inner = "dict_get table key []"
  have a: "\<forall>(l, n) \<in> set ?inner. 0 \<le> n" by (rule table_nonneg_get [OF assms])
  have "0 \<le> dict_get ?inner label 0" by (rule dict_get_nonneg [OF a])
  then show ?thesis
    by (intro exI [of _ "dict_get ?inner label 0 + 1"]) (simp add: count_label_get in_set_dict_set)
qed

lemma count_label_has_key:
  "label \<in> fst ` set (dict_get (count_label table key label) key [])"
  by (simp add: count_label_get keys_dict_set)

lemma sorted_by_count_hd:
  assumes "sorted_by_count c = b # rest" "l \<in> fst ` set c"
  shows "dict_get c l 0 \<le> dict_get c b 0"
proof -
  let ?f = "\<lambda>l. - dict_get c l 0"
  have e: "sort_key ?f (map fst c) = b # rest"
    using assms(1) unfolding sorted_by_count_def .
  have "sorted (map ?f (sort_key ?f (map fst c)))" by (rule sorted_sort_key)
  then have s: "sorted (map ?f (b # rest))" unfolding e .
  have "set (sort_key ?f (map fst c)) = set (map fst c)" by (rule set_sort)
  then have "l \<in> set (b # rest)" using assms(2) unfolding e by simp
  then have "?f b \<le> ?f l" using s by auto
  then show ?thesis by simp
qed

lemma set_sorted_by_count: "set (sorted_by_count c) = fst ` set c"
  by (simp add: sorted_by_count_def)

lemma sorted_take_mem:
  "sorted (map f xs) \<Longrightarrow> x \<in> set xs \<Longrightarrow> length (filter (\<lambda>y. f y \<le> f x) xs) \<le> n
     \<Longrightarrow> x \<in> set (take n xs)"
proof (induction xs arbitrary: n)
  case Nil then show ?case by simp
next
  case (Cons a xs)
  have fa: "f a \<le> f x" using Cons.prems(1,2) by auto
  then obtain m where n: "n = Suc m" and m: "length (filter (\<lambda>y. f y \<le> f x) xs) \<le> m"
    using Cons.prems(3) by (cases n) auto
  show ?case
  proof (cases "x = a")
    case True then show ?thesis by (simp add: n)
  next
    case False
    then have "x \<in> set xs" using Cons.prems(2) by simp
    moreover have "sorted (map f xs)" using Cons.prems(1) by simp
    ultimately have "x \<in> set (take m xs)" using m Cons.IH [of m] by blast
    then show ?thesis by (simp add: n)
  qed
qed

lemma length_filter_sort_key:
  "length (filter P (sort_key f xs)) = length (filter P xs)"
  by (simp add: filter_sort)

lemma update_tables:
  "labels fo = first_label # others \<Longrightarrow>
   extension_labels (update store fo) =
     count_label (extension_labels store) (str_lower (suffix (path fo))) (str_lower first_label) \<and>
   mime_labels (update store fo) =
     count_label (mime_labels store) (mime_type fo) (str_lower first_label)"
  by (simp add: update_def Let_def)

lemma candidates_after_update:
  assumes nn: "store_nonneg store"
    and lab: "labels fo = first_label # others"
    and ext: "str_lower (suffix (path fo')) = str_lower (suffix (path fo))"
    and mt: "mime_type fo' = mime_type fo"
  shows "str_lower first_label \<in> fst ` set (candidates_of (update store fo) fo')"
    and "1 \<le> dict_get (candidates_of (update store fo) fo') (str_lower first_label) 0"
proof -
  let ?p = "str_lower first_label"
  let ?E = "dict_get (extension_labels (update store fo)) (str_lower (suffix (path fo'))) []"
  let ?M = "dict_get (mime_labels (update store fo)) (mime_type fo') []"
  have c: "candidates_of (update store fo) fo' = add_counts (add_counts [] ?E) ?M"
    by (simp add: candidates_of_def Let_def)
  have tn: "table_nonneg (extension_labels store)" "table_nonneg (mime_labels store)"
    using nn by (simp_all add: store_nonneg_def)
  have E: "?E = dict_get (count_label (extension_labels store) (str_lower (suffix (path fo))) ?p)
                  (str_lower (suffix (path fo))) []"
    using update_tables [OF lab, of store] ext by simp
  have M: "?M = dict_get (count_label (mime_labels store) (mime_type fo) ?p) (mime_type fo) []"
    using update_tables [OF lab, of store] mt by simp
  have En: "\<forall>(l, n) \<in> set ?E. 0 \<le> n" unfolding E by (rule count_label_inner_nonneg [OF tn(1)])
  have Mn: "\<forall>(l, n) \<in> set ?M. 0 \<le> n" unfolding M by (rule count_label_inner_nonneg [OF tn(2)])
  obtain n where n: "1 \<le> n" "(?p, n) \<in> set ?E"
    unfolding E using count_label_has [OF tn(1)] by blast
  have "n \<le> dict_get (add_counts [] ?E) ?p 0"
    by (rule add_counts_ge [OF En n(2)]) (simp add: dict_get_def)
  also have "\<dots> \<le> dict_get (add_counts (add_counts [] ?E) ?M) ?p 0"
    by (rule add_counts_mono [OF Mn])
  finally show "1 \<le> dict_get (candidates_of (update store fo) fo') ?p 0"
    using n(1) unfolding c by simp
  have "?p \<in> fst ` set ?E" using n(2) by force
  then show "?p \<in> fst ` set (candidates_of (update store fo) fo')"
    unfolding c keys_add_counts by simp
qed

section \<open>Properties of the organization engine\<close>

lemma route_cases:
  "route eng root_dir fo summ =
     (if errors fo \<noteq> [] \<or> confidence_score fo < confidence_threshold eng
      then (pjoin root_dir (Path (staging_dir_name eng)), summ\<lparr>staged := staged summ + 1\<rparr>,
            [Staging (if errors fo \<noteq> [] then ''errors'' else ''low_confidence'') (path fo)])
      else (pjoin root_dir (determine_category fo), summ\<lparr>moved := moved summ + 1\<rparr>, []))"
  by (simp add: route_def Let_def)

text \<open>What one step returns, read off the definition.\<close>

lemma organize_one_Inr:
  assumes "organize_one os eng root_dir fo (summ, lg, fs) = Inr (fo', summ', lg', fs')"
  shows "summ' = fst (snd (route eng root_dir fo summ))"
    and "fst (mkdir os (fst (route eng root_dir fo summ)) fs) = None"
    and "fo' = (let fs1 = snd (mkdir os (fst (route eng root_dir fo summ)) fs);
                   destination = pjoin (fst (route eng root_dir fo summ)) (Path (name (path fo)))
               in if destination \<noteq> path fo \<and> fst (move os (path fo) destination fs1) = None
                  then fo\<lparr>target_path := Some destination\<rparr> else fo)"
  using assms
  by (auto simp: organize_one_def Let_def split: prod.splits option.splits if_splits)

lemma organize_one_total:
  assumes "fst (mkdir os (fst (route eng root_dir fo summ)) fs) = None"
  shows "\<exists>r. organize_one os eng root_dir fo (summ, lg, fs) = Inr r"
  using assms
  by (auto simp: organize_one_def Let_def split: prod.splits option.splits if_splits)

lemma organize_loop_counts:
  assumes "organize_loop os eng root_dir files (summ, lg, fs) = Inr (files', summ', lg', fs')"
  shows "staged summ' = staged summ + int (length (filter
            (\<lambda>f. errors f \<noteq> [] \<or> confidence_score f < confidence_threshold eng) files)) \<and>
         moved summ' = moved summ + int (length (filter
            (\<lambda>f. \<not> (errors f \<noteq> [] \<or> confidence_score f < confidence_threshold eng)) files))"
  using assms
proof (induction files arbitrary: summ lg fs files')
  case Nil
  then show ?case by simp
next
  case (Cons fo rest)
  from Cons.prems obtain fo1 summ1 lg1 fs1 rest1 where
    one: "organize_one os eng root_dir fo (summ, lg, fs) = Inr (fo1, summ1, lg1, fs1)" and
    more: "organize_loop os eng root_dir rest (summ1, lg1, fs1) = Inr (rest1, summ', lg', fs')"
    by (auto split: sum.splits prod.splits)
  have s1: "summ1 = fst (snd (route eng root_dir fo summ))" by (rule organize_one_Inr(1) [OF one])
  from Cons.IH [OF more] show ?case
    by (auto simp: s1 route_cases)
qed

lemma organize_loop_total:
  assumes "\<forall>d s. fst (mkdir os d s) = None"
  shows "\<exists>r. organize_loop os eng root_dir files st = Inr r"
proof (induction files arbitrary: st)
  case Nil
  show ?case by (rule exI [of _ "([], st)"]) simp
next
  case (Cons fo rest)
  obtain summ lg fs where st: "st = (summ, lg, fs)" by (metis prod_cases3)
  from assms have "fst (mkdir os (fst (route eng root_dir fo summ)) fs) = None" by blast
  then obtain fo1 st1 where one: "organize_one os eng root_dir fo (summ, lg, fs) = Inr (fo1, st1)"
    using organize_one_total [of os eng root_dir fo summ fs lg] by force
  from Cons.IH [of st1] obtain r where "organize_loop os eng root_dir rest st1 = Inr r" by blast
  then show ?case by (cases r) (simp add: st one)
qed

lemma organize_one_record:
  assumes "organize_one os eng root_dir fo (summ, lg, fs) = Inr (fo', summ', lg', fs')"
  shows "fo' = fo \<or> (\<exists>d. fo' = fo\<lparr>target_path := Some d\<rparr>)"
  using organize_one_Inr(3) [OF assms] by (auto simp: Let_def split: if_splits)

lemma organize_loop_records:
  assumes "organize_loop os eng root_dir files st = Inr (files', st')"
  shows "list_all2 (\<lambda>f f'. f' = f \<or> (\<exists>d. f' = f\<lparr>target_path := Some d\<rparr>)) files files'"
  using assms
proof (induction files arbitrary: st files')
  case Nil
  then show ?case by simp
next
  case (Cons fo rest)
  obtain summ lg fs where st: "st = (summ, lg, fs)" by (metis prod_cases3)
  from Cons.prems obtain fo1 summ1 lg1 fs1 rest1 where
    one: "organize_one os eng root_dir fo (summ, lg, fs) = Inr (fo1, summ1, lg1, fs1)" and
    more: "organize_loop os eng root_dir rest (summ1, lg1, fs1) = Inr (rest1, st')" and
    f: "files' = fo1 # rest1"
    unfolding st by (auto split: sum.splits prod.splits)
  show ?case unfolding f using organize_one_record [OF one] Cons.IH [OF more] by simp
qed

lemma learn_target_path [simp]:
  "learn context store (f\<lparr>target_path := t\<rparr>) = learn context store f"
  by (simp add: learn_def update_def Let_def split: list.splits)

lemma foldl_learn_records:
  assumes "list_all2 (\<lambda>f f'. f' = f \<or> (\<exists>d. f' = f\<lparr>target_path := Some d\<rparr>)) files files'"
  shows "foldl (learn context) store files' = foldl (learn context) store files"
  using assms
proof (induction files files' arbitrary: store rule: list_all2_induct)
  case Nil
  then show ?case by simp
next
  case (Cons f fs f' fs')
  from Cons.hyps(1) have "learn context store f' = learn context store f" by auto
  then show ?case using Cons.IH by simp
qed

lemma foldl_learn_filter:
  "foldl (learn context) store files =
     foldl update store
       (filter (\<lambda>f. errors f = [] \<and> \<not> confidence_score f < ctx_confidence_threshold context) files)"
  by (induction files arbitrary: store) (simp_all add: learn_def)

text \<open>The recording system: each call is appended to the list with its outcome.\<close>

lemma traced_mkdir:
  "mkdir (traced os) d (calls, s) =
     (fst (mkdir os d s), calls @ [Mkdir d (fst (mkdir os d s))], snd (mkdir os d s))"
  by (simp add: traced_def split: prod.splits)

lemma traced_move:
  "move (traced os) src dst (calls, s) =
     (fst (move os src dst s), calls @ [Move src dst (fst (move os src dst s))], snd (move os src dst s))"
  by (simp add: traced_def split: prod.splits)

lemma spec_destination_dir_route:
  "fst (route eng root_dir f summ) = spec_destination_dir eng root_dir f"
  by (simp add: route_cases spec_destination_dir_def)

text \<open>One step under the recording system: the same result, and the calls of the
  specification appended.\<close>

lemma organize_one_traced:
  assumes "organize_one os eng root_dir f (summ, lg, fs) = Inr (f', summ', lg', fs')"
  shows "\<exists>cs. organize_one (traced os) eng root_dir f (summ, lg, (calls, fs))
                = Inr (f', summ', lg', (calls @ cs, fs')) \<and>
              spec_record_calls (spec_destination_dir eng root_dir f)
                (spec_destination eng root_dir f) f f' cs"
proof -
  let ?d = "spec_destination_dir eng root_dir f"
  let ?dest = "spec_destination eng root_dir f"
  obtain summ1 ev where r: "route eng root_dir f summ = (?d, summ1, ev)"
    using spec_destination_dir_route [of eng root_dir f summ]
    by (cases "route eng root_dir f summ") auto
  obtain e1 fs1 where m: "mkdir os ?d fs = (e1, fs1)" by (cases "mkdir os ?d fs")
  have e1: "e1 = None" using assms by (auto simp: organize_one_def r m split: option.splits)
  have dest: "pjoin ?d (Path (name (path f))) = ?dest" by (simp add: spec_destination_def)
  show ?thesis
  proof (cases "?dest = path f")
    case True
    have "f' = f" "summ' = summ1" "lg' = lg @ ev @ [SkipMove ?dest]" "fs' = fs1"
      using assms True by (auto simp: organize_one_def r m e1 dest Let_def)
    then show ?thesis using True
      by (intro exI [of _ "[Mkdir ?d None]"])
         (simp add: organize_one_def r traced_mkdir m e1 dest Let_def)
  next
    case False
    obtain e2 fs2 where mv: "move os (path f) ?dest fs1 = (e2, fs2)"
      by (cases "move os (path f) ?dest fs1")
    show ?thesis
    proof (cases e2)
      case None
      have "f' = f\<lparr>target_path := Some ?dest\<rparr>" "summ' = summ1"
           "lg' = lg @ ev @ [Moved (path f) ?dest]" "fs' = fs2"
        using assms False by (auto simp: organize_one_def r m e1 dest mv None Let_def)
      then show ?thesis using False
        by (intro exI [of _ "[Mkdir ?d None, Move (path f) ?dest None]"])
           (simp add: organize_one_def r traced_mkdir traced_move m e1 dest mv None Let_def)
    next
      case (Some e)
      have "f' = f" "summ' = summ1" "fs' = fs2"
           "lg' = lg @ ev @ [if is_PermissionError e
                             then PermissionErrorMoving (path f) (exn_str e)
                             else MoveError (path f) (exn_str e)]"
        using assms False by (auto simp: organize_one_def r m e1 dest mv Some Let_def)
      then show ?thesis using False
        by (intro exI [of _ "[Mkdir ?d None, Move (path f) ?dest (Some e)]"])
           (simp add: organize_one_def r traced_mkdir traced_move m e1 dest mv Some Let_def)
    qed
  qed
qed

lemma organize_loop_traced:
  assumes "organize_loop os eng root_dir files (summ, lg, fs) = Inr (files', summ', lg', fs')"
  shows "\<exists>css. organize_loop (traced os) eng root_dir files (summ, lg, (calls, fs))
                 = Inr (files', summ', lg', (calls @ concat css, fs')) \<and>
               length files' = length files \<and> length css = length files \<and>
               list_all2 (\<lambda>f (f', cs). spec_record_calls (spec_destination_dir eng root_dir f)
                                          (spec_destination eng root_dir f) f f' cs)
                 files (zip files' css)"
  using assms
proof (induction files arbitrary: summ lg fs calls files')
  case Nil
  then show ?case by (intro exI [of _ "[]"]) auto
next
  case (Cons f rest)
  from Cons.prems obtain f1 summ1 lg1 fs1 rest1 where
    one: "organize_one os eng root_dir f (summ, lg, fs) = Inr (f1, summ1, lg1, fs1)" and
    more: "organize_loop os eng root_dir rest (summ1, lg1, fs1) = Inr (rest1, summ', lg', fs')" and
    fl: "files' = f1 # rest1"
    by (auto split: sum.splits prod.splits)
  from organize_one_traced [OF one, of calls] obtain cs where
    t1: "organize_one (traced os) eng root_dir f (summ, lg, (calls, fs))
           = Inr (f1, summ1, lg1, (calls @ cs, fs1))" and
    c1: "spec_record_calls (spec_destination_dir eng root_dir f)
           (spec_destination eng root_dir f) f f1 cs"
    by blast
  from Cons.IH [OF more, of "calls @ cs"] obtain css where
    t2: "organize_loop (traced os) eng root_dir rest (summ1, lg1, (calls @ cs, fs1))
           = Inr (rest1, summ', lg', ((calls @ cs) @ concat css, fs'))" and
    l: "length rest1 = length rest" "length css = length rest" and
    a: "list_all2 (\<lambda>f (f', cs). spec_record_calls (spec_destination_dir eng root_dir f)
                                          (spec_destination eng root_dir f) f f' cs)
                 rest (zip rest1 css)"
    by blast
  show ?case
    by (intro exI [of _ "cs # css"]) (simp add: t1 t2 fl l c1 a)
qed

lemma organize_files_traced:
  assumes "organize_files os eng root_dir files fs = Inr (files', summ, lg, fs')"
  shows "\<exists>css. organize_files (traced os) eng root_dir files ([], fs)
                 = Inr (files', summ, lg,
                        (Mkdir (pjoin root_dir (Path (staging_dir_name eng))) None # concat css, fs')) \<and>
               length files' = length files \<and> length css = length files \<and>
               list_all2 (\<lambda>f (f', cs). spec_record_calls (spec_destination_dir eng root_dir f)
                                          (spec_destination eng root_dir f) f f' cs)
                 files (zip files' css)"
proof -
  let ?s = "pjoin root_dir (Path (staging_dir_name eng))"
  obtain e1 fs1 where m: "mkdir os ?s fs = (e1, fs1)" by (cases "mkdir os ?s fs")
  have e1: "e1 = None" using assms by (auto simp: organize_files_def m Let_def split: option.splits)
  have l: "organize_loop os eng root_dir files (\<lparr>moved = 0, staged = 0\<rparr>, [], fs1)
             = Inr (files', summ, lg, fs')"
    using assms by (simp add: organize_files_def m e1 Let_def)
  from organize_loop_traced [OF l, of "[Mkdir ?s None]"] obtain css where
    t: "organize_loop (traced os) eng root_dir files (\<lparr>moved = 0, staged = 0\<rparr>, [], ([Mkdir ?s None], fs1))
          = Inr (files', summ, lg, ([Mkdir ?s None] @ concat css, fs'))" and
    r: "length files' = length files" "length css = length files"
       "list_all2 (\<lambda>f (f', cs). spec_record_calls (spec_destination_dir eng root_dir f)
                                          (spec_destination eng root_dir f) f f' cs)
                 files (zip files' css)"
    by blast
  have "organize_files (traced os) eng root_dir files ([], fs)
          = Inr (files', summ, lg, (Mkdir ?s None # concat css, fs'))"
    using t by (simp add: organize_files_def traced_mkdir m e1 Let_def)
  then show ?thesis using r by blast
qed

lemma spec_record_calls_shape:
  assumes "spec_record_calls d dest f f' cs"
  shows "\<exists>outcome. cs = Mkdir d None # (if dest = path f then [] else [Move (path f) dest outcome])"
  using assms by (rule spec_record_calls.elims(2)) auto

lemma spec_record_calls_target:
  assumes "target_path f = None" "spec_record_calls d dest f f' cs"
  shows "target_path f' = (if Move (path f) dest None \<in> set cs then Some dest else None)"
  using assms(2,1) by (elim spec_record_calls.elims(2)) (auto split: option.splits)

section \<open>Properties of the metadata processor\<close>

lemma add_counts_nonneg:
  "\<forall>(l, n) \<in> set c. 0 \<le> n \<Longrightarrow> \<forall>(l, n) \<in> set items. 0 \<le> n
     \<Longrightarrow> \<forall>(l, n) \<in> set (add_counts c items). 0 \<le> n"
proof (induction items arbitrary: c)
  case Nil
  then show ?case by (simp add: add_counts_Nil)
next
  case (Cons a items)
  obtain l n where a: "a = (l, n)" by (cases a)
  have n: "0 \<le> n" using Cons.prems(2) a by simp
  have "0 \<le> dict_get c l 0" by (rule dict_get_nonneg [OF Cons.prems(1)])
  then have "\<forall>(l', n') \<in> set (dict_set c l (dict_get c l 0 + n)). 0 \<le> n'"
    using n by (intro set_dict_set_nonneg [OF Cons.prems(1)]) simp
  then show ?case unfolding a add_counts_Cons
    by (rule Cons.IH) (use Cons.prems(2) in simp)
qed

lemma candidates_nonneg:
  assumes "store_nonneg store"
  shows "\<forall>(l, n) \<in> set (candidates_of store fo). 0 \<le> n"
proof -
  have tn: "table_nonneg (extension_labels store)" "table_nonneg (mime_labels store)"
    using assms by (simp_all add: store_nonneg_def)
  have "\<forall>(l, n) \<in> set (add_counts [] (dict_get (extension_labels store)
            (str_lower (suffix (path fo))) [])). 0 \<le> n"
    by (rule add_counts_nonneg [OF _ table_nonneg_get [OF tn(1)]]) simp
  then show ?thesis
    unfolding candidates_of_def Let_def
    by (rule add_counts_nonneg [OF _ table_nonneg_get [OF tn(2)]])
qed

text \<open>\<open>suggest_labels\<close> by cases: no candidate, a top count outside the range of a float,
  or the first \<open>limit\<close> labels with the boost.\<close>

lemma suggest_labels_Nil:
  "sorted_by_count (candidates_of store fo) = [] \<Longrightarrow> suggest_labels store fo limit = Inr ([], 0)"
  by (simp add: suggest_labels_def)

lemma suggest_labels_Cons:
  "sorted_by_count (candidates_of store fo) = b # rest \<Longrightarrow>
   suggest_labels store fo limit =
     (if float_max_int \<le> \<bar>dict_get (candidates_of store fo) b 0\<bar>
      then Inl (Exn OverflowError ''int too large to convert to float'')
      else Inr (slice_to (b # rest) limit,
                min 20 (real_of_int (dict_get (candidates_of store fo) b 0) * 2)))"
  by (simp add: suggest_labels_def float_of_int_def)

lemma suggest_boost_nonneg:
  assumes "store_nonneg store" "suggest_labels store fo limit = Inr (suggested, boost)"
  shows "0 \<le> boost"
proof (cases "sorted_by_count (candidates_of store fo)")
  case Nil
  then show ?thesis using assms(2) by (simp add: suggest_labels_Nil)
next
  case (Cons b rest)
  have "0 \<le> dict_get (candidates_of store fo) b 0"
    by (rule dict_get_nonneg [OF candidates_nonneg [OF assms(1)]])
  then show ?thesis using assms(2) by (auto simp: suggest_labels_Cons [OF Cons] split: if_splits)
qed

lemma suggest_labels_fields:
  "path fo' = path fo \<Longrightarrow> mime_type fo' = mime_type fo
     \<Longrightarrow> suggest_labels store fo' limit = suggest_labels store fo limit"
  by (simp add: suggest_labels_def candidates_of_def)

lemma learning_augment_fields:
  "path fo' = path fo \<Longrightarrow> mime_type fo' = mime_type fo
     \<Longrightarrow> learning_augment ls fo' lc = learning_augment ls fo lc"
  by (cases lc; cases ls) (simp_all add: learning_augment_def suggest_labels_fields [of fo' fo])

lemma media_override_fields:
  "mime_type fo' = mime_type fo \<Longrightarrow> media_override fo' p lc = media_override fo p lc"
  by (simp add: media_override_def)

lemma media_override_image:
  assumes "startswith (mime_type fo) ''image/'' \<or> str_lower (suffix p) \<in> set image_extensions"
  shows "85 \<le> snd (media_override fo p (labs, conf))"
  using assms by (auto simp: media_override_def Let_def split: if_splits)

lemma learning_augment_Some:
  "suggest_labels store fo 3 = Inr (suggested, boost) \<Longrightarrow>
   learning_augment (Some store) fo (labs, conf) =
     Inr (if suggested \<noteq> []
          then (if labs = [] \<or> labs = [''photo''] \<or> labs = [''video''] \<or> labs = [''audio'']
                then suggested else labs,
                min 100 (conf + boost))
          else (labs, conf))"
  by (simp add: learning_augment_def)

lemma learning_augment_conf:
  assumes "\<forall>store. ls = Some store \<longrightarrow> store_nonneg store" "85 \<le> snd lc"
    and "learning_augment ls fo lc = Inr r"
  shows "85 \<le> snd r"
proof (cases ls)
  case None
  then show ?thesis using assms(2,3) by (cases lc) (auto simp: learning_augment_def)
next
  case (Some store)
  obtain labs conf where lc: "lc = (labs, conf)" by (cases lc)
  from assms(3) obtain suggested boost where s: "suggest_labels store fo 3 = Inr (suggested, boost)"
    unfolding Some lc by (auto simp: learning_augment_def split: sum.splits)
  have "store_nonneg store" using assms(1) Some by blast
  then have "0 \<le> boost" using s by (rule suggest_boost_nonneg)
  then show ?thesis
    using assms(2,3) unfolding Some lc learning_augment_Some [OF s] by (auto split: if_splits)
qed

text \<open>A record without errors comes from a body that ran to its end.\<close>

lemma process_file_no_errors:
  assumes "process_file env ls p = Inr fo" "errors fo = []"
  shows "\<exists>md content lc.
           extract_metadata env p = Inr (md, content) \<and>
           generate_labels env (take 500 content) md = Inr lc \<and>
           path fo = p \<and> detect_mime_type env p = Inr (mime_type fo) \<and>
           metadata fo = md \<and> is_consistent fo = validate_filename p md \<and>
           target_path fo = None \<and>
           learning_augment ls fo (media_override fo p lc) = Inr (labels fo, confidence_score fo)"
proof -
  from assms(1) obtain mt where mt: "detect_mime_type env p = Inr mt"
    by (auto simp: process_file_def split: sum.splits)
  let ?fo0 = "new_FileObject p mt"
  obtain ex fo1 where b: "process_body env ls ?fo0 p = (ex, fo1)"
    by (cases "process_body env ls ?fo0 p")
  have ex: "ex = None" and fo: "fo = fo1"
    using assms b by (auto simp: process_file_def mt split: option.splits)
  from b [unfolded ex] obtain md content lc labs conf where
    e: "extract_metadata env p = Inr (md, content)" and
    g: "generate_labels env (take 500 content) md = Inr lc" and
    a: "learning_augment ls (?fo0\<lparr>metadata := md, is_consistent := validate_filename p md\<rparr>)
          (media_override (?fo0\<lparr>metadata := md, is_consistent := validate_filename p md\<rparr>) p lc)
        = Inr (labs, conf)" and
    r: "fo1 = (?fo0\<lparr>metadata := md, is_consistent := validate_filename p md\<rparr>)
            \<lparr>labels := labs, confidence_score := conf\<rparr>"
    by (auto simp: process_body_def Let_def split: sum.splits prod.splits)
  let ?f1 = "?fo0\<lparr>metadata := md, is_consistent := validate_filename p md\<rparr>"
  have pm: "path fo = path ?f1" "mime_type fo = mime_type ?f1"
    unfolding fo r by simp_all
  have "learning_augment ls fo (media_override fo p lc)
          = learning_augment ls ?f1 (media_override ?f1 p lc)"
    using learning_augment_fields [OF pm, of ls] media_override_fields [OF pm(2), of p lc] by simp
  also have "\<dots> = Inr (labels fo, confidence_score fo)"
    unfolding a fo r by simp
  finally have lab: "learning_augment ls fo (media_override fo p lc)
                       = Inr (labels fo, confidence_score fo)" .
  have "path fo = p" "mime_type fo = mt" "metadata fo = md"
    "is_consistent fo = validate_filename p md" "target_path fo = None"
    unfolding fo r by (simp_all add: new_FileObject_def)
  then show ?thesis using e g lab mt by blast
qed

lemma process_file_raises_iff:
  "isl (process_file env ls p) = isl (detect_mime_type env p)"
  by (auto simp: process_file_def split: sum.splits prod.splits option.splits)

lemma suggest_labels_top:
  assumes "suggest_labels store fo 3 = Inr (suggested, boost)" "suggested \<noteq> []"
  shows "boost = min 20 (2 * real_of_int (dict_get (candidates_of store fo) (hd suggested) 0))"
    and "\<forall>l \<in> fst ` set (candidates_of store fo).
           dict_get (candidates_of store fo) l 0 \<le> dict_get (candidates_of store fo) (hd suggested) 0"
proof -
  from assms obtain b rest where s: "sorted_by_count (candidates_of store fo) = b # rest"
    by (cases "sorted_by_count (candidates_of store fo)") (auto simp: suggest_labels_Nil)
  have r: "suggested = slice_to (b # rest) 3"
          "boost = min 20 (real_of_int (dict_get (candidates_of store fo) b 0) * 2)"
    using assms(1) unfolding suggest_labels_Cons [OF s] by (auto split: if_splits)
  have h: "hd suggested = b" unfolding r by (simp add: slice_to_def)
  show "boost = min 20 (2 * real_of_int (dict_get (candidates_of store fo) (hd suggested) 0))"
    using r(2) h by (simp add: mult.commute)
  show "\<forall>l \<in> fst ` set (candidates_of store fo).
           dict_get (candidates_of store fo) l 0 \<le> dict_get (candidates_of store fo) (hd suggested) 0"
    unfolding h using sorted_by_count_hd [OF s] by blast
qed

section \<open>Properties of the cleanup engine\<close>

lemma below_trans:
  assumes "below a b" "below b c"
  shows "below a c"
proof -
  have ab: "length a < length b" "take (length a) b = a" using assms(1) by (simp_all add: below_def)
  have bc: "length b < length c" "take (length b) c = b" using assms(2) by (simp_all add: below_def)
  have "take (length a) (take (length b) c) = take (length a) c"
    using ab(1) by (simp add: min_def)
  then have "take (length a) c = a" using ab(2) bc(2) by simp
  then show ?thesis using ab(1) bc(1) by (simp add: below_def)
qed

lemma below_child: "p \<noteq> [] \<Longrightarrow> butlast p = d \<Longrightarrow> below d p"
  unfolding below_def by (auto simp: butlast_conv_take)

lemma below_butlast: "below r d \<Longrightarrow> butlast d = r \<or> below r (butlast d)"
  unfolding below_def by (cases "length d = Suc (length r)") (auto simp: butlast_conv_take)

lemma is_dir_iff:
  "distinct (map fst (entries fs)) \<Longrightarrow> is_dir fs p \<longleftrightarrow> (p, Dir) \<in> set (entries fs)"
  by (simp add: is_dir_def)

lemma kind_not_File: "k \<noteq> File \<longleftrightarrow> k = Dir"
  by (cases k) auto

lemma file_free_iff:
  "file_free fs d \<longleftrightarrow> (\<forall>p. (p, File) \<in> set (entries fs) \<longrightarrow> \<not> below d p)"
  by (auto simp: file_free_def list_all_iff)

lemma sorted_desc_before:
  assumes "sorted (map (\<lambda>p. - int (length p)) (pre @ d # ds))"
    and "c \<in> set (pre @ d # ds)" and "length d < length (c::'a list)"
  shows "c \<in> set pre"
proof (rule ccontr)
  assume "c \<notin> set pre"
  then have "c = d \<or> c \<in> set ds" using assms(2) by auto
  moreover have "\<forall>x \<in> set (d # ds). - int (length d) \<le> - int (length x)"
    using assms(1) by (auto simp: sorted_append)
  ultimately show False using assms(3) by auto
qed

lemma length_filter_in:
  "distinct (map fst es) \<Longrightarrow> finite R \<Longrightarrow> R \<subseteq> fst ` set es
     \<Longrightarrow> length (filter (\<lambda>(p, k). p \<in> R) es) = card R"
proof (induction es arbitrary: R)
  case Nil
  then show ?case by simp
next
  case (Cons e es)
  obtain p k where e: "e = (p, k)" by (cases e)
  have d: "distinct (map fst es)" and pn: "p \<notin> fst ` set es" using Cons.prems(1) e by auto
  show ?case
  proof (cases "p \<in> R")
    case True
    have "R - {p} \<subseteq> fst ` set es" using Cons.prems(3) e by auto
    then have a: "length (filter (\<lambda>(q, k). q \<in> R - {p}) es) = card (R - {p})"
      using Cons.IH [OF d, of "R - {p}"] Cons.prems(2) by simp
    have b: "filter (\<lambda>(q, k). q \<in> R - {p}) es = filter (\<lambda>(q, k). q \<in> R) es"
      using pn by (intro filter_cong) (auto simp: image_iff)
    have c: "card R = Suc (card (R - {p}))"
      using True Cons.prems(2) by (rule_tac card.remove) 
    have "length (filter (\<lambda>(q, k). q \<in> R) (e # es)) = Suc (length (filter (\<lambda>(q, k). q \<in> R) es))"
      using True e by simp
    also have "\<dots> = Suc (card (R - {p}))" using a unfolding b by (rule arg_cong)
    also have "\<dots> = card R" using c by (rule sym)
    finally show ?thesis .
  next
    case False
    then have "R \<subseteq> fst ` set es" using Cons.prems(3) e by auto
    then show ?thesis using Cons.IH [OF d Cons.prems(2)] False e by simp
  qed
qed

lemma filter_removed:
  "filter (\<lambda>(p, k). p \<noteq> d) (filter (\<lambda>(p, k). p \<notin> R) es) = filter (\<lambda>(p, k). p \<notin> insert d R) es"
  by (induction es) auto

lemma sweep_invariant:
  assumes dist0: "distinct (map fst (entries fs0))"
    and deny: "\<forall>d \<in> set (denied fs0). \<not> (d = root_dir \<or> below root_dir d)"
    and all_dirs: "set (pre @ ds) = {d. is_dir fs0 d \<and> below root_dir d}"
    and dist: "distinct (pre @ ds)"
    and srt: "sorted (map (\<lambda>p. - int (length p)) (pre @ ds))"
    and R: "R \<subseteq> set pre"
    and fs: "fs = fs0\<lparr>entries := filter (\<lambda>(p, k). p \<notin> R) (entries fs0)\<rparr>"
    and finished: "\<forall>d \<in> set pre. file_free fs0 d \<longrightarrow> d \<in> R"
  shows "\<exists>R'. R \<subseteq> R' \<and> R' \<subseteq> set (pre @ ds) \<and>
           (\<forall>d \<in> set (pre @ ds). file_free fs0 d \<longrightarrow> d \<in> R') \<and>
           sweep ds (n, fs) =
             Inr (n + int (card R') - int (card R),
                  fs0\<lparr>entries := filter (\<lambda>(p, k). p \<notin> R') (entries fs0)\<rparr>)"
  using all_dirs dist srt R fs finished
proof (induction ds arbitrary: pre R fs n)
  case Nil
  show ?case
    by (rule exI [of _ R]) (use Nil in auto)
next
  case (Cons d rest)
  have d_dir: "is_dir fs0 d" and d_below: "below root_dir d"
    using Cons.prems(1) by auto
  have d_new: "d \<notin> set pre" using Cons.prems(2) by simp
  then have d_R: "d \<notin> R" using Cons.prems(4) by blast
  have finR: "finite R" using Cons.prems(4) by (rule finite_subset) simp
  have dist_fs: "distinct (map fst (entries fs))"
    unfolding Cons.prems(5) using dist0 by (simp add: distinct_map_filter)
  have "(d, Dir) \<in> set (entries fs0)" using d_dir dist0 by (simp add: is_dir_iff)
  then have "(d, Dir) \<in> set (entries fs)" using d_R unfolding Cons.prems(5) by simp
  then have d_dir_now: "is_dir fs d" using dist_fs by (simp add: is_dir_iff)
  have den: "denied fs = denied fs0" unfolding Cons.prems(5) by simp
  have d_ok: "d \<notin> set (denied fs)" using deny d_below unfolding den by blast
  have parent_ok: "butlast d \<notin> set (denied fs)"
    using deny below_butlast [OF d_below] unfolding den by blast
  let ?ch = "filter (\<lambda>(p, k). p \<noteq> [] \<and> butlast p = d) (entries fs)"
  have it: "iterdir fs d = Inr (map fst ?ch)"
    using d_ok d_dir_now by (simp add: iterdir_def)
  have pre': "set ((pre @ [d]) @ rest) = {d. is_dir fs0 d \<and> below root_dir d}"
    "distinct ((pre @ [d]) @ rest)"
    "sorted (map (\<lambda>p. - int (length p)) ((pre @ [d]) @ rest))"
    using Cons.prems(1,2,3) by simp_all
  show ?case
  proof (cases "?ch = []")
    case True
    let ?fs1 = "fs0\<lparr>entries := filter (\<lambda>(p, k). p \<notin> insert d R) (entries fs0)\<rparr>"
    have "entries fs = filter (\<lambda>(p, k). p \<notin> R) (entries fs0)"
      unfolding Cons.prems(5) by simp
    then have "filter (\<lambda>(p, k). p \<noteq> d) (entries fs)
                 = filter (\<lambda>(p, k). p \<notin> insert d R) (entries fs0)"
      by (simp only: filter_removed)
    moreover have "fs\<lparr>entries := filter (\<lambda>(p, k). p \<notin> insert d R) (entries fs0)\<rparr> = ?fs1"
      unfolding Cons.prems(5) by simp
    moreover have "rmdir fs d = Inr (fs\<lparr>entries := filter (\<lambda>(p, k). p \<noteq> d) (entries fs)\<rparr>)"
      using parent_ok d_dir_now True by (simp add: rmdir_def)
    ultimately have rm: "rmdir fs d = Inr ?fs1" by simp
    have step: "sweep (d # rest) (n, fs) = sweep rest (n + 1, ?fs1)"
      using it rm True by simp
    have R1: "insert d R \<subseteq> set (pre @ [d])" using Cons.prems(4) by auto
    have fin1: "\<forall>x \<in> set (pre @ [d]). file_free fs0 x \<longrightarrow> x \<in> insert d R"
      using Cons.prems(6) by auto
    from Cons.IH [OF pre' R1 refl fin1, of "n + 1"] obtain R' where
      r: "insert d R \<subseteq> R'" "R' \<subseteq> set ((pre @ [d]) @ rest)"
         "\<forall>x \<in> set ((pre @ [d]) @ rest). file_free fs0 x \<longrightarrow> x \<in> R'" and
      s: "sweep rest (n + 1, ?fs1) =
            Inr (n + 1 + int (card R') - int (card (insert d R)),
                 fs0\<lparr>entries := filter (\<lambda>(p, k). p \<notin> R') (entries fs0)\<rparr>)"
      by blast
    have "card (insert d R) = Suc (card R)" using finR d_R by simp
    then have "n + 1 + int (card R') - int (card (insert d R)) = n + int (card R') - int (card R)"
      by simp
    then have "sweep (d # rest) (n, fs) =
            Inr (n + int (card R') - int (card R),
                 fs0\<lparr>entries := filter (\<lambda>(p, k). p \<notin> R') (entries fs0)\<rparr>)"
      using step s by simp
    then show ?thesis using r by (intro exI [of _ R']) auto
  next
    case False
    have step: "sweep (d # rest) (n, fs) = sweep rest (n, fs)"
      using it False by simp
    have not_free: "\<not> file_free fs0 d"
    proof
      assume free: "file_free fs0 d"
      from False obtain c k where ck: "(c, k) \<in> set ?ch"
        by (cases ?ch) auto
      then have c_now: "(c, k) \<in> set (entries fs)" and c_child: "c \<noteq> []" "butlast c = d"
        by auto
      have c0: "(c, k) \<in> set (entries fs0)" and c_R: "c \<notin> R"
        using c_now unfolding Cons.prems(5) by auto
      have c_below: "below d c" by (rule below_child [OF c_child])
      have "k \<noteq> File" using free c0 c_below by (auto simp: file_free_iff)
      then have "k = Dir" by (simp add: kind_not_File)
      then have c_dir: "is_dir fs0 c" using c0 dist0 by (simp add: is_dir_iff)
      have "below root_dir c" by (rule below_trans [OF d_below c_below])
      then have c_in: "c \<in> set (pre @ d # rest)" using c_dir Cons.prems(1) by blast
      have "length d < length c" using c_below by (simp add: below_def)
      then have c_pre: "c \<in> set pre" by (rule sorted_desc_before [OF Cons.prems(3) c_in])
      have "file_free fs0 c"
        using free below_trans [OF c_below] by (auto simp: file_free_iff)
      then have "c \<in> R" using Cons.prems(6) c_pre by blast
      then show False using c_R by contradiction
    qed
    have R1: "R \<subseteq> set (pre @ [d])" using Cons.prems(4) by auto
    have fin1: "\<forall>x \<in> set (pre @ [d]). file_free fs0 x \<longrightarrow> x \<in> R"
      using Cons.prems(6) not_free by auto
    from Cons.IH [OF pre' R1 Cons.prems(5) fin1, of n] obtain R' where
      r: "R \<subseteq> R'" "R' \<subseteq> set ((pre @ [d]) @ rest)"
         "\<forall>x \<in> set ((pre @ [d]) @ rest). file_free fs0 x \<longrightarrow> x \<in> R'" and
      s: "sweep rest (n, fs) =
            Inr (n + int (card R') - int (card R),
                 fs0\<lparr>entries := filter (\<lambda>(p, k). p \<notin> R') (entries fs0)\<rparr>)"
      by blast
    show ?thesis using r s step by (intro exI [of _ R']) auto
  qed
qed

lemma rglob_iff:
  assumes "\<forall>d \<in> set (denied fs). \<not> (d = root_dir \<or> below root_dir d)"
  shows "p \<in> set (rglob fs root_dir) \<longleftrightarrow> (p \<in> fst ` set (entries fs) \<and> below root_dir p)"
proof -
  have "take n p \<notin> set (denied fs)" if b: "below root_dir p" and n: "length root_dir \<le> n" "n < length p" for n
  proof (cases "n = length root_dir")
    case True
    then have "take n p = root_dir" using b by (simp add: below_def)
    then show ?thesis using assms by blast
  next
    case False
    then have "length root_dir < length (take n p)" using n by simp
    moreover have "take (length root_dir) (take n p) = root_dir"
      using b n by (simp add: below_def min_def)
    ultimately have "below root_dir (take n p)" by (simp add: below_def)
    then show ?thesis using assms by blast
  qed
  then have "below root_dir p \<Longrightarrow>
      list_all (\<lambda>n. take n p \<notin> set (denied fs)) [length root_dir ..< length p]"
    by (simp add: list_all_iff)
  then show ?thesis by (force simp: rglob_def)
qed

lemma distinct_rglob: "distinct (map fst (entries fs)) \<Longrightarrow> distinct (rglob fs root_dir)"
  by (simp add: rglob_def distinct_map_filter)

section \<open>C1: the routing decision\<close>

text \<open>
  C1: whenever \<open>organize_files\<close> returns, every input record was routed as specified. Run
  on the recording system, the same call returns the same result, and its calls are the
  creation of the staging directory followed, for each record in order, by the creation
  of the destination directory of the specification (the staging directory when the
  \<open>errors\<close> list is non-empty or the \<open>confidence_score\<close> is strictly below the threshold,
  however high the score of a record with errors; the root joined with
  \<open>determine_category\<close> otherwise) and, unless the file is already there, the move of the
  file to its name in that directory. The staged count is the number of records with
  errors or a low score, the moved count the number of records with no errors and a
  score of at least the threshold.
\<close>

theorem organize_routing:
  assumes "organize_files os eng root_dir files fs = Inr (files', summ, lg, fs')"
  shows "\<exists>css. organize_files (traced os) eng root_dir files ([], fs)
                 = Inr (files', summ, lg,
                        (Mkdir (pjoin root_dir (Path (staging_dir_name eng))) None # concat css, fs')) \<and>
               list_all2
                 (\<lambda>f cs. \<exists>outcome.
                    cs = Mkdir (spec_destination_dir eng root_dir f) None #
                           (if spec_destination eng root_dir f = path f then []
                            else [Move (path f) (spec_destination eng root_dir f) outcome]))
                 files css \<and>
               staged summ = int (length (filter
                  (\<lambda>f. errors f \<noteq> [] \<or> confidence_score f < confidence_threshold eng) files)) \<and>
               moved summ = int (length (filter
                  (\<lambda>f. errors f = [] \<and> confidence_threshold eng \<le> confidence_score f) files))"
proof -
  from organize_files_traced [OF assms] obtain css where
    t: "organize_files (traced os) eng root_dir files ([], fs)
          = Inr (files', summ, lg,
                 (Mkdir (pjoin root_dir (Path (staging_dir_name eng))) None # concat css, fs'))" and
    l: "length files' = length files" "length css = length files" and
    a: "list_all2 (\<lambda>f (f', cs). spec_record_calls (spec_destination_dir eng root_dir f)
                                          (spec_destination eng root_dir f) f f' cs)
                 files (zip files' css)"
    by blast
  have shape: "list_all2
                 (\<lambda>f cs. \<exists>outcome.
                    cs = Mkdir (spec_destination_dir eng root_dir f) None #
                           (if spec_destination eng root_dir f = path f then []
                            else [Move (path f) (spec_destination eng root_dir f) outcome]))
                 files css"
    unfolding list_all2_conv_all_nth
  proof (intro conjI allI impI)
    show "length files = length css" using l by simp
    fix i assume i: "i < length files"
    have "spec_record_calls (spec_destination_dir eng root_dir (files ! i))
            (spec_destination eng root_dir (files ! i)) (files ! i) (files' ! i) (css ! i)"
      using a i l by (auto simp: list_all2_conv_all_nth)
    then show "\<exists>outcome.
            css ! i = Mkdir (spec_destination_dir eng root_dir (files ! i)) None #
                 (if spec_destination eng root_dir (files ! i) = path (files ! i) then []
                  else [Move (path (files ! i)) (spec_destination eng root_dir (files ! i)) outcome])"
      by (rule spec_record_calls_shape)
  qed
  from assms obtain fs1 where
    lp: "organize_loop os eng root_dir files (\<lparr>moved = 0, staged = 0\<rparr>, [], fs1) = Inr (files', summ, lg, fs')"
    by (auto simp: organize_files_def Let_def split: prod.splits option.splits)
  have c: "staged summ = int (length (filter
                  (\<lambda>f. errors f \<noteq> [] \<or> confidence_score f < confidence_threshold eng) files))"
          "moved summ = int (length (filter
                  (\<lambda>f. \<not> (errors f \<noteq> [] \<or> confidence_score f < confidence_threshold eng)) files))"
    using organize_loop_counts [OF lp] by simp_all
  have "filter (\<lambda>f. \<not> (errors f \<noteq> [] \<or> confidence_score f < confidence_threshold eng)) files
          = filter (\<lambda>f. errors f = [] \<and> confidence_threshold eng \<le> confidence_score f) files"
    by (rule filter_cong) (auto simp: not_less)
  then have c2: "moved summ = int (length (filter
                  (\<lambda>f. errors f = [] \<and> confidence_threshold eng \<le> confidence_score f) files))"
    using c(2) by simp
  show ?thesis using t shape c(1) c2 by blast
qed

theorem organize_routing_witness:
  "errors file_e \<noteq> [] \<and> confidence_threshold engine_70 \<le> confidence_score file_e \<and>
   spec_destination_dir engine_70 [''/'', ''r''] file_e = [''/'', ''r'', ''_UNKNOWN_NEEDS_REVIEW''] \<and>
   spec_destination_dir engine_70 [''/'', ''r''] file_m = [''/'', ''r'', ''_UNKNOWN_NEEDS_REVIEW''] \<and>
   spec_destination_dir engine_70 [''/'', ''r''] file_a = [''/'', ''r'', ''Documents'', ''Text''] \<and>
   (\<exists>files' summ lg fs'.
      organize_files fs_os engine_70 [''/'', ''r''] [file_a, file_b, file_c, file_m, file_e] tree_r
        = Inr (files', summ, lg, fs') \<and>
      (\<exists>css. organize_files (traced fs_os) engine_70 [''/'', ''r'']
                 [file_a, file_b, file_c, file_m, file_e] ([], tree_r)
               = Inr (files', summ, lg,
                      (Mkdir [''/'', ''r'', ''_UNKNOWN_NEEDS_REVIEW''] None # concat css, fs')) \<and>
             Mkdir [''/'', ''r'', ''_UNKNOWN_NEEDS_REVIEW''] None # concat css =
               [Mkdir [''/'', ''r'', ''_UNKNOWN_NEEDS_REVIEW''] None,
                Mkdir [''/'', ''r'', ''Documents'', ''Text''] None,
                Move [''/'', ''r'', ''in'', ''a.txt''] [''/'', ''r'', ''Documents'', ''Text'', ''a.txt''] None,
                Mkdir [''/'', ''r'', ''Documents'', ''Text''] None,
                Move [''/'', ''r'', ''locked'', ''b.txt''] [''/'', ''r'', ''Documents'', ''Text'', ''b.txt'']
                  (Some (Exn PermissionError ''Permission denied'')),
                Mkdir [''/'', ''r'', ''Documents'', ''Text''] None,
                Mkdir [''/'', ''r'', ''_UNKNOWN_NEEDS_REVIEW''] None,
                Move [''/'', ''r'', ''in'', ''m.bin''] [''/'', ''r'', ''_UNKNOWN_NEEDS_REVIEW'', ''m.bin''] None,
                Mkdir [''/'', ''r'', ''_UNKNOWN_NEEDS_REVIEW''] None,
                Move [''/'', ''r'', ''in'', ''e.txt''] [''/'', ''r'', ''_UNKNOWN_NEEDS_REVIEW'', ''e.txt''] None]) \<and>
      staged summ = 2 \<and> moved summ = 3)"
proof -
  let ?r = "[''/'', ''r'']"
  let ?files = "[file_a, file_b, file_c, file_m, file_e]"
  let ?calls = "[Mkdir [''/'', ''r'', ''_UNKNOWN_NEEDS_REVIEW''] None,
                Mkdir [''/'', ''r'', ''Documents'', ''Text''] None,
                Move [''/'', ''r'', ''in'', ''a.txt''] [''/'', ''r'', ''Documents'', ''Text'', ''a.txt''] None,
                Mkdir [''/'', ''r'', ''Documents'', ''Text''] None,
                Move [''/'', ''r'', ''locked'', ''b.txt''] [''/'', ''r'', ''Documents'', ''Text'', ''b.txt'']
                  (Some (Exn PermissionError ''Permission denied'')),
                Mkdir [''/'', ''r'', ''Documents'', ''Text''] None,
                Mkdir [''/'', ''r'', ''_UNKNOWN_NEEDS_REVIEW''] None,
                Move [''/'', ''r'', ''in'', ''m.bin''] [''/'', ''r'', ''_UNKNOWN_NEEDS_REVIEW'', ''m.bin''] None,
                Mkdir [''/'', ''r'', ''_UNKNOWN_NEEDS_REVIEW''] None,
                Move [''/'', ''r'', ''in'', ''e.txt''] [''/'', ''r'', ''_UNKNOWN_NEEDS_REVIEW'', ''e.txt''] None]"
  have e: "errors file_e \<noteq> []" "confidence_threshold engine_70 \<le> confidence_score file_e"
    by code_simp+
  have d: "spec_destination_dir engine_70 ?r file_e = [''/'', ''r'', ''_UNKNOWN_NEEDS_REVIEW'']"
          "spec_destination_dir engine_70 ?r file_m = [''/'', ''r'', ''_UNKNOWN_NEEDS_REVIEW'']"
          "spec_destination_dir engine_70 ?r file_a = [''/'', ''r'', ''Documents'', ''Text'']"
    by code_simp+
  have st: "pjoin ?r (Path (staging_dir_name engine_70)) = [''/'', ''r'', ''_UNKNOWN_NEEDS_REVIEW'']"
    by code_simp
  have "case organize_files fs_os engine_70 ?r ?files tree_r of Inl e \<Rightarrow> False | Inr x \<Rightarrow> True"
    by code_simp
  then obtain files' summ lg fs' where
    r: "organize_files fs_os engine_70 ?r ?files tree_r = Inr (files', summ, lg, fs')"
    by (auto split: sum.splits)
  have tr: "case organize_files (traced fs_os) engine_70 ?r ?files ([], tree_r) of
              Inl e \<Rightarrow> False
            | Inr (files', summ, lg, calls, fs') \<Rightarrow> calls = ?calls"
    by code_simp
  have n: "length (filter (\<lambda>f. errors f \<noteq> [] \<or> confidence_score f < confidence_threshold engine_70)
             ?files) = 2"
          "length (filter (\<lambda>f. errors f = [] \<and> confidence_threshold engine_70 \<le> confidence_score f)
             ?files) = 3"
    by code_simp+
  from organize_routing [OF r] obtain css where
    t: "organize_files (traced fs_os) engine_70 ?r ?files ([], tree_r)
          = Inr (files', summ, lg,
                 (Mkdir (pjoin ?r (Path (staging_dir_name engine_70))) None # concat css, fs'))" and
    c: "staged summ = int (length (filter
          (\<lambda>f. errors f \<noteq> [] \<or> confidence_score f < confidence_threshold engine_70) ?files))"
       "moved summ = int (length (filter
          (\<lambda>f. errors f = [] \<and> confidence_threshold engine_70 \<le> confidence_score f) ?files))"
    by blast
  have calls: "Mkdir [''/'', ''r'', ''_UNKNOWN_NEEDS_REVIEW''] None # concat css = ?calls"
    using tr unfolding t st by simp
  have cnt: "staged summ = 2" "moved summ = 3" using c n by simp_all
  have "\<exists>css. organize_files (traced fs_os) engine_70 ?r ?files ([], tree_r)
               = Inr (files', summ, lg,
                      (Mkdir [''/'', ''r'', ''_UNKNOWN_NEEDS_REVIEW''] None # concat css, fs')) \<and>
             Mkdir [''/'', ''r'', ''_UNKNOWN_NEEDS_REVIEW''] None # concat css = ?calls"
    using t calls unfolding st by blast
  then show ?thesis using e d r cnt by blast
qed

section \<open>C2: which records reach the learning store\<close>

text \<open>
  C2, as stated, fails: \<open>OrganizeCommand.execute\<close> skips a record only for its errors or
  its low confidence. The record below has no errors and a confidence of 90; its move
  raises \<open>PermissionError\<close>, its \<open>target_path\<close> stays \<open>None\<close>, and \<open>update\<close> still records
  its label.
\<close>

theorem learning_store_after_execute_counterexample:
  "(case OrganizeCommand_execute fs_os context_r [file_b] empty_store tree_r of
      (Inr (files', summ, lg, fs'), store') \<Rightarrow>
        map target_path files' = [None] \<and>
        lg = [PermissionErrorMoving [''/'', ''r'', ''locked'', ''b.txt''] ''Permission denied''] \<and>
        errors file_b = [] \<and>
        store' = \<lparr>extension_labels = [(''.txt'', [(''report'', 1)])],
                  mime_labels = [(''text/plain'', [(''report'', 1)])]\<rparr> \<and>
        store' \<noteq> empty_store
    | _ \<Rightarrow> False)"
  by code_simp

text \<open>
  C2 (amended): the learning store is mutated only for records that were not staged:
  when \<open>organize_files\<close> returns, the store of the context is the old store updated, in
  order, with exactly the input records that have no errors and a confidence not below
  the threshold, so a record that was staged or has errors leaves both mappings as they
  are; whether the physical move of a record succeeded plays no part. When
  \<open>organize_files\<close> raises, the store is unchanged.
\<close>

theorem learning_store_after_execute:
  "snd (OrganizeCommand_execute os context files store fs) =
     (if isl (organize_files os
                \<lparr>confidence_threshold = ctx_confidence_threshold context,
                 staging_dir_name = ctx_staging_dir_name context\<rparr>
                (ctx_root context) files fs)
      then store
      else foldl update store
             (filter (\<lambda>f. errors f = [] \<and> \<not> confidence_score f < ctx_confidence_threshold context)
                files))"
proof -
  let ?eng = "\<lparr>confidence_threshold = ctx_confidence_threshold context,
               staging_dir_name = ctx_staging_dir_name context\<rparr>"
  show ?thesis
  proof (cases "organize_files os ?eng (ctx_root context) files fs")
    case (Inl e)
    then show ?thesis by (simp add: OrganizeCommand_execute_def)
  next
    case (Inr r)
    obtain files' summ lg fs1 where r: "r = (files', summ, lg, fs1)" by (metis prod_cases4)
    from Inr obtain fs0 where
      "organize_loop os ?eng (ctx_root context) files (\<lparr>moved = 0, staged = 0\<rparr>, [], fs0)
         = Inr (files', summ, lg, fs1)"
      unfolding r by (auto simp: organize_files_def Let_def split: prod.splits option.splits)
    then have "list_all2 (\<lambda>f f'. f' = f \<or> (\<exists>d. f' = f\<lparr>target_path := Some d\<rparr>)) files files'"
      by (rule organize_loop_records)
    then have "foldl (learn context) store files' = foldl (learn context) store files"
      by (rule foldl_learn_records)
    then have "snd (OrganizeCommand_execute os context files store fs) = foldl (learn context) store files"
      using Inr by (simp add: OrganizeCommand_execute_def r Let_def split: prod.splits option.splits)
    then show ?thesis using Inr by (simp add: foldl_learn_filter)
  qed
qed

theorem learning_store_after_execute_witness:
  "\<not> isl (organize_files fs_os
            \<lparr>confidence_threshold = ctx_confidence_threshold context_r,
             staging_dir_name = ctx_staging_dir_name context_r\<rparr>
            (ctx_root context_r) [file_m, file_a] tree_r) \<and>
   snd (OrganizeCommand_execute fs_os context_r [file_m, file_a] empty_store tree_r)
     = \<lparr>extension_labels = [(''.txt'', [(''notes'', 1)])],
        mime_labels = [(''text/plain'', [(''notes'', 1)])]\<rparr>"
proof -
  have r: "\<not> isl (organize_files fs_os
            \<lparr>confidence_threshold = ctx_confidence_threshold context_r,
             staging_dir_name = ctx_staging_dir_name context_r\<rparr>
            (ctx_root context_r) [file_m, file_a] tree_r)"
    by code_simp
  have u: "foldl update empty_store
             (filter (\<lambda>f. errors f = [] \<and> \<not> confidence_score f < ctx_confidence_threshold context_r)
                [file_m, file_a])
           = \<lparr>extension_labels = [(''.txt'', [(''notes'', 1)])],
              mime_labels = [(''text/plain'', [(''notes'', 1)])]\<rparr>"
    by code_simp
  show ?thesis
    using learning_store_after_execute [of fs_os context_r "[file_m, file_a]" empty_store tree_r] r u
    by simp
qed

section \<open>C3: loading the learning store\<close>

text \<open>
  C3, as stated, fails: \<open>load\<close> has no handler, so the exception of \<open>json.loads\<close> on a
  file that is not valid JSON propagates, and so does the \<open>AttributeError\<close> of \<open>data.get\<close>
  on a decoded value that is not an object.
\<close>

theorem load_counterexample:
  "load NotJson = Inl (Exn JSONDecodeError ''Expecting value'') \<and>
   load (Json (JArr [])) = Inl (Exn AttributeError ''object has no attribute get'')"
  by (simp add: load_def)

text \<open>
  C3 (amended): \<open>load\<close> returns a store when the file is absent or holds a JSON
  object: empty mappings for an absent file, and for an object the values of its fields
  \<open>extension_labels\<close> and \<open>mime_labels\<close>, with an empty mapping for each missing field;
  in particular it returns what \<open>save\<close> wrote. On a file that is not valid JSON it
  raises.
\<close>

theorem load_result:
  "load Absent = Inr \<lparr>loaded_extension_labels = JObj [], loaded_mime_labels = JObj []\<rparr> \<and>
   load (Json (JObj [])) = load Absent \<and>
   load (Json (JObj items)) =
     Inr \<lparr>loaded_extension_labels = dict_get items ''extension_labels'' (JObj []),
          loaded_mime_labels = dict_get items ''mime_labels'' (JObj [])\<rparr> \<and>
   load (Json (JObj [(''extension_labels'', table_json (extension_labels store)),
                     (''mime_labels'', table_json (mime_labels store))])) =
     Inr \<lparr>loaded_extension_labels = table_json (extension_labels store),
          loaded_mime_labels = table_json (mime_labels store)\<rparr> \<and>
   isl (load NotJson)"
  by (simp add: load_def dict_get_def)

section \<open>C4: exceptions of process_file\<close>

text \<open>
  C4 does not hold of the code: \<open>detect_mime_type\<close> is called before the \<open>try\<close>, so
  \<open>process_file\<close> raises exactly when the MIME detection raises; every later exception
  is caught and recorded in \<open>errors\<close>. With a MIME detector that cannot open the file
  the call raises \<open>PermissionError\<close>, while the same exception of the extraction is
  caught.
\<close>

theorem process_file_raises_on_mime_failure:
  "isl (process_file env learning_store file_path) = isl (detect_mime_type env file_path) \<and>
   process_file env_magic_denied None [''/'', ''r'', ''shot.png'']
     = Inl (Exn PermissionError ''Permission denied'') \<and>
   process_file env_unreadable None [''/'', ''r'', ''shot.png'']
     = Inr ((new_FileObject [''/'', ''r'', ''shot.png''] ''image/png'')
              \<lparr>errors := [''Permission denied'']\<rparr>)"
proof -
  have "process_file env_magic_denied None [''/'', ''r'', ''shot.png'']
          = Inl (Exn PermissionError ''Permission denied'')"
    by code_simp
  moreover have "process_file env_unreadable None [''/'', ''r'', ''shot.png'']
     = Inr ((new_FileObject [''/'', ''r'', ''shot.png''] ''image/png'')
              \<lparr>errors := [''Permission denied'']\<rparr>)"
    by code_simp
  ultimately show ?thesis using process_file_raises_iff [of env learning_store file_path] by simp
qed

section \<open>C5: the learning augmentation\<close>

text \<open>
  C5, as stated, fails in its last sentence: when the store suggests labels, the
  confidence is boosted whether or not the labels are replaced. The text file below gets
  the labels \<open>finance, report\<close> with confidence 70 from its content; with a store that
  suggests \<open>notes\<close> the labels stay and the confidence becomes 76.
\<close>

theorem learning_augmentation_counterexample:
  "(case process_file env_plain None [''/'', ''r'', ''a.txt''] of
      Inr fo \<Rightarrow> labels fo = [''finance'', ''report''] \<and> confidence_score fo = 70
    | Inl e \<Rightarrow> False) \<and>
   suggest_labels store_notes (new_FileObject [''/'', ''r'', ''a.txt''] ''text/plain'') 3
     = Inr ([''notes''], 6) \<and>
   (case process_file env_plain (Some store_notes) [''/'', ''r'', ''a.txt''] of
      Inr fo \<Rightarrow> labels fo = [''finance'', ''report''] \<and> confidence_score fo = 76
    | Inl e \<Rightarrow> False) \<and>
   learning_augment (Some store_notes) (new_FileObject [''/'', ''r'', ''a.txt''] ''text/plain'')
       ([''finance'', ''report''], 70)
     = Inr ([''finance'', ''report''], 76)"
  by code_simp

text \<open>
  C5 (amended): when the learning store returns a non-empty suggestion list for the
  file's extension and MIME type, the labels are replaced by the suggestions only when
  the current labels are empty or exactly \<open>[photo]\<close>, \<open>[video]\<close> or \<open>[audio]\<close>; any other
  non-empty label list is left unchanged by this step. Whether or not the labels are
  replaced, the boost \<open>min(20, 2 * top count)\<close> is added to the existing confidence and
  the result is capped at 100; the top count is the combined count of the first
  suggestion, the largest combined count. A record that \<open>process_file\<close> returns without
  an error carries the labels and the confidence of this step.
\<close>

theorem learning_augmentation:
  assumes "suggest_labels store fo 3 = Inr (suggested, boost)" and "suggested \<noteq> []"
  shows "learning_augment (Some store) fo (labs, conf) =
           Inr (if labs = [] \<or> labs = [''photo''] \<or> labs = [''video''] \<or> labs = [''audio'']
                then suggested else labs,
                min 100 (conf + boost)) \<and>
         boost = min 20 (2 * real_of_int (dict_get (candidates_of store fo) (hd suggested) 0)) \<and>
         (\<forall>l \<in> fst ` set (candidates_of store fo).
            dict_get (candidates_of store fo) l 0
              \<le> dict_get (candidates_of store fo) (hd suggested) 0) \<and>
         (\<forall>env file_path fo'.
            process_file env (Some store) file_path = Inr fo' \<and> errors fo' = [] \<longrightarrow>
              (\<exists>md content lc.
                 extract_metadata env file_path = Inr (md, content) \<and>
                 generate_labels env (take 500 content) md = Inr lc \<and>
                 learning_augment (Some store) fo' (media_override fo' file_path lc)
                   = Inr (labels fo', confidence_score fo')))"
proof (intro conjI allI impI)
  show "learning_augment (Some store) fo (labs, conf) =
           Inr (if labs = [] \<or> labs = [''photo''] \<or> labs = [''video''] \<or> labs = [''audio'']
                then suggested else labs,
                min 100 (conf + boost))"
    using assms(2) by (simp add: learning_augment_Some [OF assms(1)])
  show "boost = min 20 (2 * real_of_int (dict_get (candidates_of store fo) (hd suggested) 0))"
    by (rule suggest_labels_top(1) [OF assms])
  show "\<forall>l \<in> fst ` set (candidates_of store fo).
            dict_get (candidates_of store fo) l 0
              \<le> dict_get (candidates_of store fo) (hd suggested) 0"
    by (rule suggest_labels_top(2) [OF assms])
next
  fix env file_path fo'
  assume "process_file env (Some store) file_path = Inr fo' \<and> errors fo' = []"
  then show "\<exists>md content lc.
                 extract_metadata env file_path = Inr (md, content) \<and>
                 generate_labels env (take 500 content) md = Inr lc \<and>
                 learning_augment (Some store) fo' (media_override fo' file_path lc)
                   = Inr (labels fo', confidence_score fo')"
    using process_file_no_errors [of env "Some store" file_path fo'] by blast
qed

theorem learning_augmentation_witness:
  "suggest_labels store_design (new_FileObject [''/'', ''r'', ''shot.png''] ''image/png'') 3
     = Inr ([''design''], 6) \<and>
   learning_augment (Some store_design) (new_FileObject [''/'', ''r'', ''shot.png''] ''image/png'')
       ([''photo''], 85) = Inr ([''design''], 91) \<and>
   learning_augment (Some store_design) (new_FileObject [''/'', ''r'', ''shot.png''] ''image/png'')
       ([''finance'', ''report''], 85) = Inr ([''finance'', ''report''], 91) \<and>
   learning_augment (Some store_design) (new_FileObject [''/'', ''r'', ''shot.png''] ''image/png'')
       ([''finance'', ''report''], 100) = Inr ([''finance'', ''report''], 100)"
proof -
  let ?png = "new_FileObject [''/'', ''r'', ''shot.png''] ''image/png''"
  have s: "suggest_labels store_design ?png 3 = Inr ([''design''], 6)" by code_simp
  have n: "[''design''] \<noteq> ([] :: string list)" by simp
  from learning_augmentation [OF s n, of "[''photo'']" 85]
  have 1: "learning_augment (Some store_design) ?png ([''photo''], 85) = Inr ([''design''], 91)"
    by simp
  from learning_augmentation [OF s n, of "[''finance'', ''report'']" 85]
  have 2: "learning_augment (Some store_design) ?png ([''finance'', ''report''], 85)
             = Inr ([''finance'', ''report''], 91)"
    by simp
  from learning_augmentation [OF s n, of "[''finance'', ''report'']" 100]
  have 3: "learning_augment (Some store_design) ?png ([''finance'', ''report''], 100)
             = Inr ([''finance'', ''report''], 100)"
    by simp
  show ?thesis using s 1 2 3 by blast
qed

section \<open>C6: update followed by suggest_labels\<close>

text \<open>
  C6, as stated, fails in three ways. \<open>suggest_labels\<close> returns only the first \<open>limit\<close>
  labels (3 by default) of the ranking by combined count, so a label recorded once does
  not appear while three labels with larger counts exist. A store holding a negative
  count gives a boost that is not positive. And for a count from \<open>2^1024 - 2^970\<close> on,
  which is non-negative, \<open>float(count)\<close> raises \<open>OverflowError\<close> and nothing is returned.
\<close>

theorem update_then_suggest_labels_counterexample:
  "labels file_d \<noteq> [] \<and> store_nonneg store_abc \<and>
   suggest_labels (update store_abc file_d) file_d 3 = Inr ([''a'', ''b'', ''c''], 10) \<and>
   str_lower (hd (labels file_d)) \<notin> set [''a'', ''b'', ''c''] \<and>
   \<not> store_nonneg store_negative \<and>
   suggest_labels (update store_negative file_d) file_d 3 = Inr ([''d''], - 6) \<and>
   store_nonneg store_huge \<and>
   suggest_labels (update store_huge file_d) file_d 3
     = Inl (Exn OverflowError ''int too large to convert to float'')"
  by code_simp

text \<open>
  C6 (amended): for every store with non-negative counts and every record with a
  non-empty label list, \<open>update\<close> followed by \<open>suggest_labels\<close> on a record with the same
  lower-cased extension and the same MIME type behaves as follows. When every combined
  count is below \<open>2^1024 - 2^970\<close>, it returns a boost strictly greater than 0, and the
  lower-cased first label is among the suggestions whenever at most \<open>limit\<close> candidate
  labels (itself included) have a combined count at least as large as its own. When some
  combined count is not below that bound, it raises \<open>OverflowError\<close>.
\<close>

theorem update_then_suggest_labels:
  assumes nn: "store_nonneg store"
    and lab: "labels fo = first_label # others"
    and ext: "str_lower (suffix (path fo')) = str_lower (suffix (path fo))"
    and mt: "mime_type fo' = mime_type fo"
  shows "(list_all (\<lambda>l. dict_get (candidates_of (update store fo) fo') l 0 < float_max_int)
            (map fst (candidates_of (update store fo) fo')) \<longrightarrow>
          (\<exists>suggested boost.
             suggest_labels (update store fo) fo' limit = Inr (suggested, boost) \<and> 0 < boost \<and>
             (int (length (filter
                (\<lambda>l. dict_get (candidates_of (update store fo) fo') (str_lower first_label) 0
                       \<le> dict_get (candidates_of (update store fo) fo') l 0)
                (map fst (candidates_of (update store fo) fo')))) \<le> limit
              \<longrightarrow> str_lower first_label \<in> set suggested))) \<and>
         (\<not> list_all (\<lambda>l. dict_get (candidates_of (update store fo) fo') l 0 < float_max_int)
              (map fst (candidates_of (update store fo) fo')) \<longrightarrow>
          suggest_labels (update store fo) fo' limit
            = Inl (Exn OverflowError ''int too large to convert to float''))"
proof -
  let ?p = "str_lower first_label"
  let ?c = "candidates_of (update store fo) fo'"
  let ?f = "\<lambda>l. - dict_get ?c l 0"
  have key: "?p \<in> fst ` set ?c" and cnt: "1 \<le> dict_get ?c ?p 0"
    using candidates_after_update [OF nn lab ext mt] by blast+
  have mem: "?p \<in> set (sorted_by_count ?c)" using key by (simp add: set_sorted_by_count)
  then obtain b rest where s: "sorted_by_count ?c = b # rest"
    by (cases "sorted_by_count ?c") auto
  have top: "dict_get ?c ?p 0 \<le> dict_get ?c b 0" by (rule sorted_by_count_hd [OF s key])
  have bkey: "b \<in> fst ` set ?c" using s set_sorted_by_count [of ?c] by (metis list.set_intros(1))
  have pos: "1 \<le> dict_get ?c b 0" using top cnt by linarith
  show ?thesis
  proof (intro conjI impI)
    assume small: "list_all (\<lambda>l. dict_get ?c l 0 < float_max_int) (map fst ?c)"
    then have "dict_get ?c b 0 < float_max_int" using bkey by (auto simp: list_all_iff)
    then have nb: "\<not> float_max_int \<le> \<bar>dict_get ?c b 0\<bar>" using pos by linarith
    have sug: "suggest_labels (update store fo) fo' limit =
        Inr (slice_to (b # rest) limit, min 20 (real_of_int (dict_get ?c b 0) * 2))"
      using nb by (simp add: suggest_labels_Cons [OF s])
    have boost: "0 < min 20 (real_of_int (dict_get ?c b 0) * 2)" using pos by simp
    have inlist: "?p \<in> set (slice_to (b # rest) limit)"
      if lim: "int (length (filter (\<lambda>l. dict_get ?c ?p 0 \<le> dict_get ?c l 0) (map fst ?c))) \<le> limit"
    proof -
      have srt: "sorted (map ?f (sorted_by_count ?c))"
        unfolding sorted_by_count_def by (rule sorted_sort_key)
      have "length (filter (\<lambda>y. ?f y \<le> ?f ?p) (sorted_by_count ?c))
              = length (filter (\<lambda>l. dict_get ?c ?p 0 \<le> dict_get ?c l 0) (map fst ?c))"
        unfolding sorted_by_count_def by (simp add: length_filter_sort_key)
      then have "length (filter (\<lambda>y. ?f y \<le> ?f ?p) (sorted_by_count ?c)) \<le> nat limit"
        using lim by linarith
      then have "?p \<in> set (take (nat limit) (sorted_by_count ?c))"
        by (rule sorted_take_mem [OF srt mem])
      moreover have "0 \<le> limit" using lim by linarith
      ultimately show ?thesis by (simp add: slice_to_def s)
    qed
    show "\<exists>suggested boost.
             suggest_labels (update store fo) fo' limit = Inr (suggested, boost) \<and> 0 < boost \<and>
             (int (length (filter (\<lambda>l. dict_get ?c ?p 0 \<le> dict_get ?c l 0) (map fst ?c))) \<le> limit
              \<longrightarrow> ?p \<in> set suggested)"
      using sug boost inlist by blast
  next
    assume "\<not> list_all (\<lambda>l. dict_get ?c l 0 < float_max_int) (map fst ?c)"
    then obtain l where l: "l \<in> fst ` set ?c" "float_max_int \<le> dict_get ?c l 0"
      by (auto simp: list_all_iff not_less)
    have "dict_get ?c l 0 \<le> dict_get ?c b 0" by (rule sorted_by_count_hd [OF s l(1)])
    then have "float_max_int \<le> \<bar>dict_get ?c b 0\<bar>" using l(2) by linarith
    then show "suggest_labels (update store fo) fo' limit
                 = Inl (Exn OverflowError ''int too large to convert to float'')"
      by (simp add: suggest_labels_Cons [OF s])
  qed
qed

theorem update_then_suggest_labels_witness:
  "store_nonneg store_abc \<and> labels file_d = [''D''] \<and>
   suggest_labels (update store_abc file_d) file_d 4 = Inr ([''a'', ''b'', ''c'', ''d''], 10) \<and>
   (\<exists>suggested boost.
      suggest_labels (update store_abc file_d) file_d 4 = Inr (suggested, boost) \<and> 0 < boost \<and>
      ''d'' \<in> set suggested) \<and>
   store_nonneg store_huge \<and>
   suggest_labels (update store_huge file_d) file_d 3
     = Inl (Exn OverflowError ''int too large to convert to float'')"
proof -
  have h1: "store_nonneg store_abc" by code_simp
  have h2: "labels file_d = ''D'' # []" by code_simp
  have h3: "list_all (\<lambda>l. dict_get (candidates_of (update store_abc file_d) file_d) l 0 < float_max_int)
              (map fst (candidates_of (update store_abc file_d) file_d))"
    by code_simp
  have h4: "int (length (filter
                (\<lambda>l. dict_get (candidates_of (update store_abc file_d) file_d) (str_lower ''D'') 0
                       \<le> dict_get (candidates_of (update store_abc file_d) file_d) l 0)
                (map fst (candidates_of (update store_abc file_d) file_d)))) \<le> 4"
    by code_simp
  have e: "str_lower ''D'' = ''d''" by code_simp
  have ev: "suggest_labels (update store_abc file_d) file_d 4 = Inr ([''a'', ''b'', ''c'', ''d''], 10)"
    by code_simp
  have g1: "store_nonneg store_huge" by code_simp
  have g3: "\<not> list_all (\<lambda>l. dict_get (candidates_of (update store_huge file_d) file_d) l 0 < float_max_int)
              (map fst (candidates_of (update store_huge file_d) file_d))"
    by code_simp
  from update_then_suggest_labels [OF h1 h2 refl refl, of 4] h3 h4
  have a: "\<exists>suggested boost.
      suggest_labels (update store_abc file_d) file_d 4 = Inr (suggested, boost) \<and> 0 < boost \<and>
      ''d'' \<in> set suggested"
    unfolding e by blast
  from update_then_suggest_labels [OF g1 h2 refl refl, of 3] g3
  have b: "suggest_labels (update store_huge file_d) file_d 3
     = Inl (Exn OverflowError ''int too large to convert to float'')"
    by blast
  show ?thesis using h1 h2 ev a g1 b by simp
qed

section \<open>C7: the bottom-up sweep of the cleanup engine\<close>

text \<open>
  C7: \<open>remove_empty_directories\<close> is one sweep over the directories below the root,
  ordered by descending number of path parts, and a directory that becomes empty because
  its subdirectories were removed is removed in the same sweep. On a tree with distinct
  paths and no permission failure at or below the root, the call returns; every
  directory below the root that has no file anywhere under it is gone (so for
  \<open>root/nested/empty\<close> with no file under \<open>root/nested\<close>, both \<open>root/nested/empty\<close> and
  \<open>root/nested\<close>); everything that is not a directory below the root, the root itself
  included, is still there; and the count returned is the number of entries removed.
\<close>

theorem remove_empty_directories_bottom_up:
  assumes dist0: "distinct (map fst (entries fs))"
    and deny: "\<forall>d \<in> set (denied fs). \<not> (d = root_dir \<or> below root_dir d)"
  shows "\<exists>n fs'. remove_empty_directories fs root_dir = Inr (n, fs') \<and>
     (\<forall>d. is_dir fs d \<and> below root_dir d \<and> file_free fs d \<longrightarrow> d \<notin> fst ` set (entries fs')) \<and>
     (\<forall>p k. (p, k) \<in> set (entries fs) \<and> \<not> (k = Dir \<and> below root_dir p)
        \<longrightarrow> (p, k) \<in> set (entries fs')) \<and>
     set (entries fs') \<subseteq> set (entries fs) \<and>
     n = int (length (entries fs)) - int (length (entries fs'))"
proof -
  let ?key = "\<lambda>p::path. - int (length p)"
  let ?ds = "sort_key ?key (filter (is_dir fs) (rglob fs root_dir))"
  have dirs: "set ([] @ ?ds) = {d. is_dir fs d \<and> below root_dir d}"
    using rglob_iff [OF deny] dist0 by (auto simp: is_dir_iff intro: rev_image_eqI)
  have dist: "distinct ([] @ ?ds)" using distinct_rglob [OF dist0] by simp
  have srt: "sorted (map ?key ([] @ ?ds))" by simp
  have fs: "fs = fs\<lparr>entries := filter (\<lambda>(p, k). p \<notin> {}) (entries fs)\<rparr>" by simp
  from sweep_invariant [OF dist0 deny dirs dist srt _ fs, of 0] obtain R where
    R: "R \<subseteq> set ?ds" "\<forall>d \<in> set ?ds. file_free fs d \<longrightarrow> d \<in> R" and
    s: "sweep ?ds (0, fs) =
          Inr (int (card R), fs\<lparr>entries := filter (\<lambda>(p, k). p \<notin> R) (entries fs)\<rparr>)"
    by auto
  let ?fs' = "fs\<lparr>entries := filter (\<lambda>(p, k). p \<notin> R) (entries fs)\<rparr>"
  have run: "remove_empty_directories fs root_dir = Inr (int (card R), ?fs')"
    using s by (simp add: remove_empty_directories_def)
  have Rdirs: "R \<subseteq> {d. is_dir fs d \<and> below root_dir d}" using R(1) dirs by simp
  have gone: "\<forall>d. is_dir fs d \<and> below root_dir d \<and> file_free fs d \<longrightarrow> d \<notin> fst ` set (entries ?fs')"
  proof (intro allI impI)
    fix d assume a: "is_dir fs d \<and> below root_dir d \<and> file_free fs d"
    then have "d \<in> set ?ds" using dirs by simp
    then have "d \<in> R" using R(2) a by blast
    then show "d \<notin> fst ` set (entries ?fs')" by auto
  qed
  have kept: "\<forall>p k. (p, k) \<in> set (entries fs) \<and> \<not> (k = Dir \<and> below root_dir p)
        \<longrightarrow> (p, k) \<in> set (entries ?fs')"
  proof (intro allI impI)
    fix p k assume a: "(p, k) \<in> set (entries fs) \<and> \<not> (k = Dir \<and> below root_dir p)"
    have "p \<notin> R"
    proof
      assume "p \<in> R"
      then have "is_dir fs p" "below root_dir p" using Rdirs by auto
      then have "(p, Dir) \<in> set (entries fs)" using dist0 by (simp add: is_dir_iff)
      then have "k = Dir" using a dist0 by (meson eq_key_imp_eq_value)
      then show False using a \<open>below root_dir p\<close> by simp
    qed
    then show "(p, k) \<in> set (entries ?fs')" using a by simp
  qed
  have sub: "set (entries ?fs') \<subseteq> set (entries fs)" by auto
  have "R \<subseteq> fst ` set (entries fs)"
    using Rdirs dist0 by (auto simp: is_dir_iff intro: rev_image_eqI)
  moreover have "finite R" using R(1) by (rule finite_subset) simp
  ultimately have c: "length (filter (\<lambda>(p, k). p \<in> R) (entries fs)) = card R"
    by (rule length_filter_in [OF dist0 _, rotated])
  have "length (filter (\<lambda>(p, k). p \<in> R) (entries fs))
          + length (filter (\<lambda>x. \<not> (case x of (p, k) \<Rightarrow> p \<in> R)) (entries fs))
        = length (entries fs)"
    by (rule sum_length_filter_compl)
  moreover have "filter (\<lambda>x. \<not> (case x of (p, k) \<Rightarrow> p \<in> R)) (entries fs)
                   = filter (\<lambda>(p, k). p \<notin> R) (entries fs)"
    by (intro filter_cong) auto
  ultimately have cnt: "int (card R) = int (length (entries fs)) - int (length (entries ?fs'))"
    using c by simp
  show ?thesis
    using run gone kept sub cnt by blast
qed

theorem remove_empty_directories_bottom_up_witness:
  "distinct (map fst (entries tree_tmp)) \<and> denied tree_tmp = [] \<and>
   is_dir tree_tmp [''/'', ''tmp'', ''nested'', ''empty''] \<and>
   is_dir tree_tmp [''/'', ''tmp'', ''nested''] \<and>
   file_free tree_tmp [''/'', ''tmp'', ''nested''] \<and>
   remove_empty_directories tree_tmp [''/'', ''tmp''] =
     Inr (3, \<lparr>entries = [([''/''], Dir), ([''/'', ''tmp''], Dir),
                           ([''/'', ''tmp'', ''non_empty''], Dir),
                           ([''/'', ''tmp'', ''non_empty'', ''file.txt''], File)],
                denied = []\<rparr>) \<and>
   (\<exists>n fs'. remove_empty_directories tree_tmp [''/'', ''tmp''] = Inr (n, fs') \<and>
      [''/'', ''tmp'', ''nested'', ''empty''] \<notin> fst ` set (entries fs') \<and>
      [''/'', ''tmp'', ''nested''] \<notin> fst ` set (entries fs') \<and>
      ([''/'', ''tmp''], Dir) \<in> set (entries fs') \<and>
      n = int (length (entries tree_tmp)) - int (length (entries fs')))"
proof -
  let ?r = "[''/'', ''tmp'']"
  have h1: "distinct (map fst (entries tree_tmp))" by code_simp
  have d0: "denied tree_tmp = []" by code_simp
  then have h2: "\<forall>d \<in> set (denied tree_tmp). \<not> (d = ?r \<or> below ?r d)" by simp
  have a: "is_dir tree_tmp [''/'', ''tmp'', ''nested'', ''empty'']
             \<and> below ?r [''/'', ''tmp'', ''nested'', ''empty'']
             \<and> file_free tree_tmp [''/'', ''tmp'', ''nested'', ''empty'']"
    by code_simp
  have b: "is_dir tree_tmp [''/'', ''tmp'', ''nested'']
             \<and> below ?r [''/'', ''tmp'', ''nested'']
             \<and> file_free tree_tmp [''/'', ''tmp'', ''nested'']"
    by code_simp
  have c: "(?r, Dir) \<in> set (entries tree_tmp) \<and> \<not> (Dir = Dir \<and> below ?r ?r)"
    by code_simp
  have ev: "remove_empty_directories tree_tmp ?r =
     Inr (3, \<lparr>entries = [([''/''], Dir), ([''/'', ''tmp''], Dir),
                           ([''/'', ''tmp'', ''non_empty''], Dir),
                           ([''/'', ''tmp'', ''non_empty'', ''file.txt''], File)],
                denied = []\<rparr>)"
    by code_simp
  from remove_empty_directories_bottom_up [OF h1 h2] obtain n fs' where
    r: "remove_empty_directories tree_tmp ?r = Inr (n, fs')" and
    g: "\<forall>d. is_dir tree_tmp d \<and> below ?r d \<and> file_free tree_tmp d \<longrightarrow> d \<notin> fst ` set (entries fs')" and
    k: "\<forall>p k. (p, k) \<in> set (entries tree_tmp) \<and> \<not> (k = Dir \<and> below ?r p)
          \<longrightarrow> (p, k) \<in> set (entries fs')" and
    n: "n = int (length (entries tree_tmp)) - int (length (entries fs'))"
    by blast
  have "[''/'', ''tmp'', ''nested'', ''empty''] \<notin> fst ` set (entries fs')" using g a by blast
  moreover have "[''/'', ''tmp'', ''nested''] \<notin> fst ` set (entries fs')" using g b by blast
  moreover have "(?r, Dir) \<in> set (entries fs')" using k c by blast
  ultimately have "\<exists>n fs'. remove_empty_directories tree_tmp ?r = Inr (n, fs') \<and>
      [''/'', ''tmp'', ''nested'', ''empty''] \<notin> fst ` set (entries fs') \<and>
      [''/'', ''tmp'', ''nested''] \<notin> fst ` set (entries fs') \<and>
      (?r, Dir) \<in> set (entries fs') \<and>
      n = int (length (entries tree_tmp)) - int (length (entries fs'))"
    using r n by blast
  then show ?thesis using h1 d0 a b ev by blast
qed

section \<open>C8: target_path is set exactly when the file was moved\<close>

text \<open>
  C8: for the records that \<open>organize_files\<close> processes (entering with \<open>target_path\<close>
  unset, as \<open>process_file\<close> leaves them), \<open>target_path\<close> is set if and only if the file was
  physically moved. Run on the recording system, the same call returns the same records
  and the same file system, and for each record the calls are those of the
  specification: with the destination equal to the current path there is no move and
  \<open>target_path\<close> stays \<open>None\<close>; otherwise \<open>shutil.move\<close> is called once, and \<open>target_path\<close>
  is the destination exactly when that call raised nothing, \<open>None\<close> when it raised.
\<close>

theorem target_path_iff_moved:
  assumes "\<forall>f \<in> set files. target_path f = None"
    and "organize_files os eng root_dir files fs = Inr (files', summ, lg, fs')"
  shows "\<exists>css. organize_files (traced os) eng root_dir files ([], fs)
                 = Inr (files', summ, lg,
                        (Mkdir (pjoin root_dir (Path (staging_dir_name eng))) None # concat css, fs')) \<and>
               length files' = length files \<and> length css = length files \<and>
               list_all2
                 (\<lambda>f (f', cs).
                    spec_record_calls (spec_destination_dir eng root_dir f)
                      (spec_destination eng root_dir f) f f' cs \<and>
                    target_path f' =
                      (if Move (path f) (spec_destination eng root_dir f) None \<in> set cs
                       then Some (spec_destination eng root_dir f) else None))
                 files (zip files' css)"
proof -
  from organize_files_traced [OF assms(2)] obtain css where
    t: "organize_files (traced os) eng root_dir files ([], fs)
          = Inr (files', summ, lg,
                 (Mkdir (pjoin root_dir (Path (staging_dir_name eng))) None # concat css, fs'))" and
    l: "length files' = length files" "length css = length files" and
    a: "list_all2 (\<lambda>f (f', cs). spec_record_calls (spec_destination_dir eng root_dir f)
                                          (spec_destination eng root_dir f) f f' cs)
                 files (zip files' css)"
    by blast
  have "list_all2
                 (\<lambda>f (f', cs).
                    spec_record_calls (spec_destination_dir eng root_dir f)
                      (spec_destination eng root_dir f) f f' cs \<and>
                    target_path f' =
                      (if Move (path f) (spec_destination eng root_dir f) None \<in> set cs
                       then Some (spec_destination eng root_dir f) else None))
                 files (zip files' css)"
    unfolding list_all2_conv_all_nth
  proof (intro conjI allI impI)
    show "length files = length (zip files' css)" using l by simp
    fix i assume i: "i < length files"
    have n: "target_path (files ! i) = None" using assms(1) i by simp
    have z: "zip files' css ! i = (files' ! i, css ! i)" using i l by simp
    have sc: "spec_record_calls (spec_destination_dir eng root_dir (files ! i))
                (spec_destination eng root_dir (files ! i)) (files ! i) (files' ! i) (css ! i)"
      using a i l by (auto simp: list_all2_conv_all_nth)
    show "case zip files' css ! i of (f', cs) \<Rightarrow>
            spec_record_calls (spec_destination_dir eng root_dir (files ! i))
              (spec_destination eng root_dir (files ! i)) (files ! i) f' cs \<and>
            target_path f' =
              (if Move (path (files ! i)) (spec_destination eng root_dir (files ! i)) None \<in> set cs
               then Some (spec_destination eng root_dir (files ! i)) else None)"
      unfolding z using sc spec_record_calls_target [OF n sc] by simp
  qed
  then show ?thesis using t l by blast
qed

theorem target_path_iff_moved_witness:
  "target_path file_a = None \<and> target_path file_b = None \<and> target_path file_c = None \<and>
   (\<exists>files' summ lg fs' css.
      organize_files fs_os engine_70 [''/'', ''r''] [file_a, file_b, file_c] tree_r
        = Inr (files', summ, lg, fs') \<and>
      organize_files (traced fs_os) engine_70 [''/'', ''r''] [file_a, file_b, file_c] ([], tree_r)
        = Inr (files', summ, lg,
               (Mkdir (pjoin [''/'', ''r''] (Path (staging_dir_name engine_70))) None # concat css, fs')) \<and>
      list_all2
        (\<lambda>f (f', cs).
           spec_record_calls (spec_destination_dir engine_70 [''/'', ''r''] f)
             (spec_destination engine_70 [''/'', ''r''] f) f f' cs \<and>
           target_path f' =
             (if Move (path f) (spec_destination engine_70 [''/'', ''r''] f) None \<in> set cs
              then Some (spec_destination engine_70 [''/'', ''r''] f) else None))
        [file_a, file_b, file_c] (zip files' css) \<and>
      map target_path files' = [Some [''/'', ''r'', ''Documents'', ''Text'', ''a.txt''], None, None] \<and>
      ([''/'', ''r'', ''Documents'', ''Text'', ''a.txt''], File) \<in> set (entries fs') \<and>
      ([''/'', ''r'', ''in'', ''a.txt''], File) \<notin> set (entries fs') \<and>
      ([''/'', ''r'', ''locked'', ''b.txt''], File) \<in> set (entries fs') \<and>
      ([''/'', ''r'', ''Documents'', ''Text'', ''b.txt''], File) \<notin> set (entries fs') \<and>
      ([''/'', ''r'', ''Documents'', ''Text'', ''c.txt''], File) \<in> set (entries fs'))"
proof -
  let ?r = "[''/'', ''r'']"
  let ?files = "[file_a, file_b, file_c]"
  have n: "\<forall>f \<in> set ?files. target_path f = None" by code_simp
  have "case organize_files fs_os engine_70 ?r ?files tree_r of
          Inl e \<Rightarrow> False
        | Inr (files', summ, lg, fs') \<Rightarrow>
            map target_path files' = [Some [''/'', ''r'', ''Documents'', ''Text'', ''a.txt''], None, None] \<and>
            ([''/'', ''r'', ''Documents'', ''Text'', ''a.txt''], File) \<in> set (entries fs') \<and>
            ([''/'', ''r'', ''in'', ''a.txt''], File) \<notin> set (entries fs') \<and>
            ([''/'', ''r'', ''locked'', ''b.txt''], File) \<in> set (entries fs') \<and>
            ([''/'', ''r'', ''Documents'', ''Text'', ''b.txt''], File) \<notin> set (entries fs') \<and>
            ([''/'', ''r'', ''Documents'', ''Text'', ''c.txt''], File) \<in> set (entries fs')"
    by code_simp
  then obtain files' summ lg fs' where
    r: "organize_files fs_os engine_70 ?r ?files tree_r = Inr (files', summ, lg, fs')" and
    v: "map target_path files' = [Some [''/'', ''r'', ''Documents'', ''Text'', ''a.txt''], None, None]"
       "([''/'', ''r'', ''Documents'', ''Text'', ''a.txt''], File) \<in> set (entries fs')"
       "([''/'', ''r'', ''in'', ''a.txt''], File) \<notin> set (entries fs')"
       "([''/'', ''r'', ''locked'', ''b.txt''], File) \<in> set (entries fs')"
       "([''/'', ''r'', ''Documents'', ''Text'', ''b.txt''], File) \<notin> set (entries fs')"
       "([''/'', ''r'', ''Documents'', ''Text'', ''c.txt''], File) \<in> set (entries fs')"
    by (auto split: sum.splits)
  from target_path_iff_moved [OF n r] obtain css where
    t: "organize_files (traced fs_os) engine_70 ?r ?files ([], tree_r)
        = Inr (files', summ, lg,
               (Mkdir (pjoin ?r (Path (staging_dir_name engine_70))) None # concat css, fs'))"
    "list_all2
        (\<lambda>f (f', cs).
           spec_record_calls (spec_destination_dir engine_70 ?r f)
             (spec_destination engine_70 ?r f) f f' cs \<and>
           target_path f' =
             (if Move (path f) (spec_destination engine_70 ?r f) None \<in> set cs
              then Some (spec_destination engine_70 ?r f) else None))
        ?files (zip files' css)"
    by blast
  have "\<exists>files' summ lg fs' css.
      organize_files fs_os engine_70 ?r ?files tree_r = Inr (files', summ, lg, fs') \<and>
      organize_files (traced fs_os) engine_70 ?r ?files ([], tree_r)
        = Inr (files', summ, lg,
               (Mkdir (pjoin ?r (Path (staging_dir_name engine_70))) None # concat css, fs')) \<and>
      list_all2
        (\<lambda>f (f', cs).
           spec_record_calls (spec_destination_dir engine_70 ?r f)
             (spec_destination engine_70 ?r f) f f' cs \<and>
           target_path f' =
             (if Move (path f) (spec_destination engine_70 ?r f) None \<in> set cs
              then Some (spec_destination engine_70 ?r f) else None))
        ?files (zip files' css) \<and>
      map target_path files' = [Some [''/'', ''r'', ''Documents'', ''Text'', ''a.txt''], None, None] \<and>
      ([''/'', ''r'', ''Documents'', ''Text'', ''a.txt''], File) \<in> set (entries fs') \<and>
      ([''/'', ''r'', ''in'', ''a.txt''], File) \<notin> set (entries fs') \<and>
      ([''/'', ''r'', ''locked'', ''b.txt''], File) \<in> set (entries fs') \<and>
      ([''/'', ''r'', ''Documents'', ''Text'', ''b.txt''], File) \<notin> set (entries fs') \<and>
      ([''/'', ''r'', ''Documents'', ''Text'', ''c.txt''], File) \<in> set (entries fs')"
    apply (rule exI [of _ files'], rule exI [of _ summ], rule exI [of _ lg], rule exI [of _ fs'],
           rule exI [of _ css])
    using r t v by simp
  moreover have "target_path file_a = None" "target_path file_b = None" "target_path file_c = None"
    using n by simp_all
  ultimately show ?thesis by simp
qed

section \<open>C9: the confidence floor of images\<close>

text \<open>
  C9, as stated, fails for two kinds of image files. With a learning store that holds a
  negative count for the extension, the negative boost lowers the floor: the record
  below has no errors, content-derived labels and a score of 75. And when the
  extraction raises, the body of the \<open>try\<close> never reaches the floor: the record has an
  error and a score of 0.
\<close>

theorem image_confidence_floor_counterexample:
  "(case process_file env_plain (Some store_negative) [''/'', ''r'', ''shot.png''] of
      Inr fo \<Rightarrow> mime_type fo = ''image/png'' \<and> errors fo = [] \<and>
                labels fo = [''finance'', ''report''] \<and> confidence_score fo = 75
    | Inl e \<Rightarrow> False) \<and>
   (case process_file env_unreadable None [''/'', ''r'', ''shot.png''] of
      Inr fo \<Rightarrow> mime_type fo = ''image/png'' \<and> errors fo = [''Permission denied''] \<and>
                confidence_score fo = 0
    | Inl e \<Rightarrow> False)"
  by code_simp

text \<open>
  C9 (amended): for every file whose MIME type starts with \<open>image/\<close> or whose lower-cased
  extension is one of the image extensions, a record that \<open>process_file\<close> returns
  without an error, with a learning store (if there is one) whose counts are
  non-negative, has a \<open>confidence_score\<close> of at least 85, whatever labels the content or
  the metadata produced: the floor does not depend on the labels being empty, only the
  \<open>photo\<close> label does.
\<close>

theorem image_confidence_floor:
  assumes "process_file env learning_store file_path = Inr fo"
    and "errors fo = []"
    and "startswith (mime_type fo) ''image/'' \<or> str_lower (suffix file_path) \<in> set image_extensions"
    and "\<forall>store. learning_store = Some store \<longrightarrow> store_nonneg store"
  shows "85 \<le> confidence_score fo"
proof -
  from process_file_no_errors [OF assms(1,2)] obtain lc where
    l: "learning_augment learning_store fo (media_override fo file_path lc)
          = Inr (labels fo, confidence_score fo)"
    by blast
  obtain labs conf where lc: "lc = (labs, conf)" by (cases lc)
  have "85 \<le> snd (media_override fo file_path lc)"
    unfolding lc by (rule media_override_image [OF assms(3)])
  then have "85 \<le> snd (labels fo, confidence_score fo)"
    using l by (rule learning_augment_conf [OF assms(4)])
  then show ?thesis by simp
qed

theorem image_confidence_floor_witness:
  "\<exists>fo. process_file env_plain (Some store_design) [''/'', ''r'', ''shot.png''] = Inr fo \<and>
        errors fo = [] \<and> mime_type fo = ''image/png'' \<and> store_nonneg store_design \<and>
        labels fo = [''finance'', ''report''] \<and> 85 \<le> confidence_score fo"
proof -
  have "case process_file env_plain (Some store_design) [''/'', ''r'', ''shot.png''] of
          Inl e \<Rightarrow> False
        | Inr fo \<Rightarrow> errors fo = [] \<and> mime_type fo = ''image/png'' \<and>
                    labels fo = [''finance'', ''report'']"
    by code_simp
  then obtain fo where
    r: "process_file env_plain (Some store_design) [''/'', ''r'', ''shot.png''] = Inr fo" and
    v: "errors fo = []" "mime_type fo = ''image/png''" "labels fo = [''finance'', ''report'']"
    by (auto split: sum.splits)
  have i: "startswith (mime_type fo) ''image/''
             \<or> str_lower (suffix [''/'', ''r'', ''shot.png'']) \<in> set image_extensions"
    unfolding v by code_simp
  have nn: "store_nonneg store_design" by code_simp
  then have st: "\<forall>store. Some store_design = Some store \<longrightarrow> store_nonneg store" by simp
  have "85 \<le> confidence_score fo" by (rule image_confidence_floor [OF r v(1) i st])
  with r v nn show ?thesis by blast
qed

section \<open>C10: the summary counts every record once\<close>

text \<open>
  C10: whatever the file system does, a summary that \<open>organize_files\<close> returns counts
  every input record exactly once: \<open>staged\<close> is the number of records with errors or
  with a confidence below the threshold, \<open>moved\<close> the number of the others, and their sum
  is the number of records. The counts depend on the routing decision only: the theorem
  holds for every behaviour of \<open>mkdir\<close> and \<open>move\<close>, so a move that succeeds, fails or
  is skipped makes no difference. A summary is returned whenever no \<open>mkdir\<close> raises.
\<close>

theorem organize_files_counts:
  "((\<forall>d s. fst (mkdir os d s) = None) \<longrightarrow> (\<exists>r. organize_files os eng root_dir files fs = Inr r)) \<and>
   (\<forall>files' summ lg fs'. organize_files os eng root_dir files fs = Inr (files', summ, lg, fs') \<longrightarrow>
      staged summ = int (length (filter
         (\<lambda>f. errors f \<noteq> [] \<or> confidence_score f < confidence_threshold eng) files)) \<and>
      moved summ = int (length (filter
         (\<lambda>f. \<not> (errors f \<noteq> [] \<or> confidence_score f < confidence_threshold eng)) files)) \<and>
      moved summ + staged summ = int (length files))"
proof (intro conjI impI allI)
  assume ok: "\<forall>d s. fst (mkdir os d s) = None"
  then have "fst (mkdir os (pjoin root_dir (Path (staging_dir_name eng))) fs) = None" by blast
  then obtain fs1 where m: "mkdir os (pjoin root_dir (Path (staging_dir_name eng))) fs = (None, fs1)"
    by (cases "mkdir os (pjoin root_dir (Path (staging_dir_name eng))) fs") auto
  from organize_loop_total [OF ok] obtain r where
    "organize_loop os eng root_dir files (\<lparr>moved = 0, staged = 0\<rparr>, [], fs1) = Inr r" by blast
  then have "organize_files os eng root_dir files fs = Inr r"
    by (simp add: organize_files_def Let_def m)
  then show "\<exists>r. organize_files os eng root_dir files fs = Inr r" ..
next
  fix files' summ lg fs'
  assume r: "organize_files os eng root_dir files fs = Inr (files', summ, lg, fs')"
  then obtain fs1 where
    l: "organize_loop os eng root_dir files (\<lparr>moved = 0, staged = 0\<rparr>, [], fs1) = Inr (files', summ, lg, fs')"
    by (auto simp: organize_files_def Let_def split: prod.splits option.splits)
  from organize_loop_counts [OF l]
  show st: "staged summ = int (length (filter
         (\<lambda>f. errors f \<noteq> [] \<or> confidence_score f < confidence_threshold eng) files))"
    and mv: "moved summ = int (length (filter
         (\<lambda>f. \<not> (errors f \<noteq> [] \<or> confidence_score f < confidence_threshold eng)) files))"
    by simp_all
  have "length (filter (\<lambda>f. \<not> (errors f \<noteq> [] \<or> confidence_score f < confidence_threshold eng)) files)
        + length (filter (\<lambda>f. errors f \<noteq> [] \<or> confidence_score f < confidence_threshold eng) files)
        = length files"
    using sum_length_filter_compl [of "\<lambda>f. errors f \<noteq> [] \<or> confidence_score f < confidence_threshold eng" files]
    by simp
  then show "moved summ + staged summ = int (length files)"
    unfolding st mv by linarith
qed

theorem organize_files_counts_witness:
  "\<exists>files' summ lg fs'.
     organize_files fs_os engine_70 [''/'', ''r''] [file_a, file_b, file_c, file_m] tree_r
       = Inr (files', summ, lg, fs') \<and>
     map target_path files' =
       [Some [''/'', ''r'', ''Documents'', ''Text'', ''a.txt''], None, None,
        Some [''/'', ''r'', ''_UNKNOWN_NEEDS_REVIEW'', ''m.bin'']] \<and>
     moved summ = 3 \<and> staged summ = 1 \<and> moved summ + staged summ = 4"
proof -
  have "case organize_files fs_os engine_70 [''/'', ''r''] [file_a, file_b, file_c, file_m] tree_r of
          Inl e \<Rightarrow> False
        | Inr (files', summ, lg, fs') \<Rightarrow>
            map target_path files' =
              [Some [''/'', ''r'', ''Documents'', ''Text'', ''a.txt''], None, None,
               Some [''/'', ''r'', ''_UNKNOWN_NEEDS_REVIEW'', ''m.bin'']] \<and>
            moved summ = 3 \<and> staged summ = 1"
    by code_simp
  then obtain files' summ lg fs' where
    r: "organize_files fs_os engine_70 [''/'', ''r''] [file_a, file_b, file_c, file_m] tree_r
          = Inr (files', summ, lg, fs')" and
    v: "map target_path files' =
          [Some [''/'', ''r'', ''Documents'', ''Text'', ''a.txt''], None, None,
           Some [''/'', ''r'', ''_UNKNOWN_NEEDS_REVIEW'', ''m.bin'']]"
       "moved summ = 3" "staged summ = 1"
    by (auto split: sum.splits)
  from organize_files_counts [of fs_os engine_70 "[''/'', ''r'']" "[file_a, file_b, file_c, file_m]" tree_r] r
  have "moved summ + staged summ = int (length [file_a, file_b, file_c, file_m])" by blast
  then have "moved summ + staged summ = 4" by simp
  with r v show ?thesis
    by (intro exI [of _ files'] exI [of _ summ] exI [of _ lg] exI [of _ fs']) simp
qed

end
